theory Spec2Isabelle
  imports Main "HOL-Library.Word"
begin

section \<open>The element type and the allocator\<close>

text \<open>
  The container of \<^verbatim>\<open>vector.h\<close> is generic in its element type \<^verbatim>\<open>T\<close> and calls the global
  \<^verbatim>\<open>operator new\<close>. Both are collaborators of the code, so they are parameters of the model:
  \<^item> \<open>is_nothrow_move_constructible\<close> and \<open>is_copy_constructible\<close> are the two type traits
    that the \<^verbatim>\<open>if constexpr\<close> of \<^verbatim>\<open>Reserve\<close> and \<^verbatim>\<open>Emplace\<close> tests;
  \<^item> \<open>copy_throws x\<close> says that the copy constructor throws when it copies the value \<open>x\<close>
    (a copy that does not throw constructs the value \<open>x\<close> again);
  \<^item> \<open>assign_throws x\<close> says the same of the copy assignment operator;
  \<^item> \<open>moved_from x\<close> is the value that a move leaves behind in an object of value \<open>x\<close>
    (the identity for \<^verbatim>\<open>int\<close>, the empty string for \<^verbatim>\<open>std::string\<close>); move construction
    and move assignment themselves do not throw in this model;
  \<^item> \<open>value_init\<close> is the outcome of \<^verbatim>\<open>T()\<close>, \<open>None\<close> when that constructor throws;
  \<^item> \<open>sizeof_T\<close> is \<^verbatim>\<open>sizeof(T)\<close>, the number of bytes of one element;
  \<^item> \<open>operator_new b\<close> is the allocator's answer to a request for \<open>b\<close> bytes: the
    address of the new block, or \<open>None\<close> when it throws \<^verbatim>\<open>std::bad_alloc\<close>.

  Sizes and capacities are counted in \<open>nat\<close>. The one product that wraps around for a
  call the code can receive is \<^verbatim>\<open>n * sizeof(T)\<close> in \<^verbatim>\<open>Allocate\<close>: it is computed in
  \<^verbatim>\<open>size_t\<close>, here the 64-bit words. (\<^verbatim>\<open>size_ * 2\<close> in \<^verbatim>\<open>Emplace\<close> would wrap only for a
  vector of \<open>2^63\<close> elements.)
\<close>

record 'a env =
  is_nothrow_move_constructible :: bool
  is_copy_constructible :: bool
  copy_throws :: "'a \<Rightarrow> bool"
  assign_throws :: "'a \<Rightarrow> bool"
  moved_from :: "'a \<Rightarrow> 'a"
  value_init :: "'a option"
  sizeof_T :: nat
  operator_new :: "nat \<Rightarrow> nat option"

text \<open>The product of two \<^verbatim>\<open>size_t\<close> values, and the byte count asked for \<open>n\<close> elements.\<close>

definition size_t_mul :: "nat \<Rightarrow> nat \<Rightarrow> nat" where
  "size_t_mul a b = unat ((of_nat a :: 64 word) * of_nat b)"

definition request :: "'a env \<Rightarrow> nat \<Rightarrow> nat" where
  "request E n = size_t_mul n (sizeof_T E)"

text \<open>The requests whose byte count is the true product.\<close>

definition no_wrap :: "'a env \<Rightarrow> nat \<Rightarrow> bool" where
  "no_wrap E n \<longleftrightarrow> 0 < sizeof_T E \<and> n * sizeof_T E < 2 ^ 64"

datatype error = BadAlloc | ElementException | AssertionFailed

text \<open>
  An operation on a state of type \<open>'s\<close> either returns a value and the new state, or
  leaves by an exception (or by a failed \<^verbatim>\<open>assert\<close>, the assertions being compiled in).
  In the second case the outcome keeps the state in which the operation left the object.
  Both cases also record the contents that the operation's local \<^verbatim>\<open>RawMemory\<close> block had at
  the moment its destructor released it (the empty list when the operation had no such
  block): an object still constructed there is an object whose destructor never runs.
\<close>

datatype ('r, 's, 'a) outcome =
  Returns 'r 's "'a option list"
| Throws error 's "'a option list"

fun state_of :: "('r, 's, 'a) outcome \<Rightarrow> 's" where
  "state_of (Returns r s rel) = s"
| "state_of (Throws e s rel) = s"

fun released :: "('r, 's, 'a) outcome \<Rightarrow> 'a option list" where
  "released (Returns r s rel) = rel"
| "released (Throws e s rel) = rel"

section \<open>Raw memory\<close>

text \<open>
  A slot of a block is \<open>None\<close> while it is raw memory and \<open>Some x\<close> while it holds a
  constructed object of value \<open>x\<close>. \<^verbatim>\<open>RawMemory\<close> cannot be copied, so a block has one
  owner at a time, and the model keeps the contents of the block (\<open>cells\<close>) next to the
  pointer \<open>buffer'\<close> that owns it. The data members \<^verbatim>\<open>buffer_\<close>, \<^verbatim>\<open>capacity_\<close>,
  \<^verbatim>\<open>data_\<close> and \<^verbatim>\<open>size_\<close> are written with a prime for the trailing underscore.
\<close>

datatype ptr = nullptr | Addr nat

record 'a RawMemory =
  buffer' :: ptr
  capacity' :: nat
  cells :: "'a option list"

text \<open>\<^verbatim>\<open>RawMemory() = default\<close> with the member initialisers of lines 84 and 85.\<close>

definition RawMemory_default :: "'a RawMemory" where
  "RawMemory_default = \<lparr>buffer' = nullptr, capacity' = 0, cells = []\<rparr>"

text \<open>
  \<^verbatim>\<open>Allocate\<close> (line 75): no call of the allocator for zero elements, and otherwise a
  request for \<^verbatim>\<open>n * sizeof(T)\<close> bytes, the product taken in \<^verbatim>\<open>size_t\<close>.
\<close>

definition Allocate :: "'a env \<Rightarrow> nat \<Rightarrow> error + ptr" where
  "Allocate E n =
     (if n \<noteq> 0
      then (case operator_new E (size_t_mul n (sizeof_T E)) of
              None \<Rightarrow> Inl BadAlloc
            | Some a \<Rightarrow> Inr (Addr a))
      else Inr nullptr)"

text \<open>
  \<^verbatim>\<open>explicit RawMemory(size_t capacity)\<close> (line 16). The new block is all raw and has
  room for as many elements as the bytes that were asked for hold, which is fewer than
  \<^verbatim>\<open>capacity_\<close> when the product wrapped around.
\<close>

definition RawMemory_new :: "'a env \<Rightarrow> nat \<Rightarrow> error + 'a RawMemory" where
  "RawMemory_new E capacity =
     (case Allocate E capacity of
        Inl e \<Rightarrow> Inl e
      | Inr p \<Rightarrow>
          Inr \<lparr>buffer' = p, capacity' = capacity,
               cells = replicate (size_t_mul capacity (sizeof_T E) div sizeof_T E) None\<rparr>)"

text \<open>
  \<^verbatim>\<open>Swap\<close> (line 56) exchanges the two pointers and the two capacities; the contents go
  with the pointer. The pair is (\<^verbatim>\<open>*this\<close>, \<^verbatim>\<open>other\<close>) before and after.
\<close>

definition RawMemory_Swap :: "'a RawMemory \<times> 'a RawMemory \<Rightarrow> 'a RawMemory \<times> 'a RawMemory" where
  "RawMemory_Swap p =
     (case p of (this, other) \<Rightarrow>
        (this\<lparr>buffer' := buffer' other, capacity' := capacity' other, cells := cells other\<rparr>,
         other\<lparr>buffer' := buffer' this, capacity' := capacity' this, cells := cells this\<rparr>))"

text \<open>
  The move constructor (line 23) swaps the freshly initialised handle with \<^verbatim>\<open>other\<close>;
  the result is (the new handle, \<^verbatim>\<open>other\<close> afterwards).
\<close>

definition RawMemory_move_ctor :: "'a RawMemory \<Rightarrow> 'a RawMemory \<times> 'a RawMemory" where
  "RawMemory_move_ctor other = RawMemory_Swap (RawMemory_default, other)"

text \<open>Move assignment (line 26): swap unless the two pointers are equal.\<close>

definition RawMemory_move_assign :: "'a RawMemory \<times> 'a RawMemory \<Rightarrow> 'a RawMemory \<times> 'a RawMemory" where
  "RawMemory_move_assign p =
     (case p of (this, rhs) \<Rightarrow>
        if buffer' rhs \<noteq> buffer' this then RawMemory_Swap (this, rhs) else (this, rhs))"

text \<open>
  \<^verbatim>\<open>operator+\<close> (line 37) and \<^verbatim>\<open>operator[]\<close> (line 51) with their assertions; an address
  inside the block is its offset from \<^verbatim>\<open>buffer_\<close>.
\<close>

definition RawMemory_plus :: "'a RawMemory \<Rightarrow> nat \<Rightarrow> error + nat" where
  "RawMemory_plus m offset = (if offset \<le> capacity' m then Inr offset else Inl AssertionFailed)"

definition RawMemory_index :: "'a RawMemory \<Rightarrow> nat \<Rightarrow> error + nat" where
  "RawMemory_index m index = (if index < capacity' m then Inr index else Inl AssertionFailed)"

section \<open>The standard algorithms on slots\<close>

text \<open>
  Reading a slot outside the block, or writing one, is undefined behaviour in C++. The
  model is total: a read outside the block finds no object and a write outside the block
  leaves the block as it is. Copying or moving from a raw slot constructs no object.
\<close>

definition slot_at :: "'a option list \<Rightarrow> nat \<Rightarrow> 'a option" where
  "slot_at m i = (if i < length m then m ! i else None)"

definition put_slot :: "'a option list \<Rightarrow> nat \<Rightarrow> 'a option \<Rightarrow> 'a option list" where
  "put_slot m i s = (if i < length m then m[i := s] else m)"

text \<open>Placement \<^verbatim>\<open>new\<close> at slot \<open>i\<close>, and \<^verbatim>\<open>std::destroy_at\<close>.\<close>

definition construct_at :: "'a option list \<Rightarrow> nat \<Rightarrow> 'a \<Rightarrow> 'a option list" where
  "construct_at m i x = put_slot m i (Some x)"

definition destroy_at :: "'a option list \<Rightarrow> nat \<Rightarrow> 'a option list" where
  "destroy_at m i = put_slot m i None"

text \<open>\<^verbatim>\<open>std::destroy_n(first, n)\<close>, which is also \<^verbatim>\<open>DestroyN\<close> (line 313).\<close>

fun destroy_n :: "'a option list \<Rightarrow> nat \<Rightarrow> nat \<Rightarrow> 'a option list" where
  "destroy_n m first 0 = m"
| "destroy_n m first (Suc n) = destroy_n (destroy_at m first) (Suc first) n"

definition DestroyN :: "'a option list \<Rightarrow> nat \<Rightarrow> nat \<Rightarrow> 'a option list" where
  "DestroyN buf first n = destroy_n buf first n"

text \<open>
  \<^verbatim>\<open>std::uninitialized_copy_n(first, n, d_first)\<close> from the block \<open>src\<close> into the block
  \<open>dst\<close>. When a copy constructor throws, the objects constructed so far by this call are
  destroyed and the exception goes on: \<open>Inl\<close> carries the destination block after that
  clean-up, \<open>Inr\<close> the destination block after \<open>n\<close> successful copies.
\<close>

fun uninitialized_copy_n ::
  "'a env \<Rightarrow> 'a option list \<Rightarrow> nat \<Rightarrow> nat \<Rightarrow> 'a option list \<Rightarrow> nat
     \<Rightarrow> 'a option list + 'a option list" where
  "uninitialized_copy_n E src first 0 dst d_first = Inr dst"
| "uninitialized_copy_n E src first (Suc n) dst d_first =
     (if (case slot_at src first of None \<Rightarrow> False | Some x \<Rightarrow> copy_throws E x) then Inl dst
      else (case uninitialized_copy_n E src (Suc first) n
                   (put_slot dst d_first (slot_at src first)) (Suc d_first) of
              Inl dst' \<Rightarrow> Inl (destroy_at dst' d_first)
            | Inr dst' \<Rightarrow> Inr dst'))"

text \<open>
  \<^verbatim>\<open>std::uninitialized_move_n(first, n, d_first)\<close>: every source object is left in its
  moved-from state. The result is (source block, destination block).
\<close>

fun uninitialized_move_n ::
  "'a env \<Rightarrow> 'a option list \<Rightarrow> nat \<Rightarrow> nat \<Rightarrow> 'a option list \<Rightarrow> nat
     \<Rightarrow> 'a option list \<times> 'a option list" where
  "uninitialized_move_n E src first 0 dst d_first = (src, dst)"
| "uninitialized_move_n E src first (Suc n) dst d_first =
     uninitialized_move_n E
       (put_slot src first (map_option (moved_from E) (slot_at src first))) (Suc first) n
       (put_slot dst d_first (slot_at src first)) (Suc d_first)"

text \<open>\<^verbatim>\<open>std::uninitialized_value_construct_n(first, n)\<close>, with the same clean-up.\<close>

fun uninitialized_value_construct_n ::
  "'a env \<Rightarrow> 'a option list \<Rightarrow> nat \<Rightarrow> nat \<Rightarrow> 'a option list + 'a option list" where
  "uninitialized_value_construct_n E m first 0 = Inr m"
| "uninitialized_value_construct_n E m first (Suc n) =
     (case value_init E of
        None \<Rightarrow> Inl m
      | Some x \<Rightarrow>
          (case uninitialized_value_construct_n E (construct_at m first x) (Suc first) n of
             Inl m' \<Rightarrow> Inl (destroy_at m' first)
           | Inr m' \<Rightarrow> Inr m'))"

text \<open>
  \<^verbatim>\<open>std::copy_n(first, n, d_first)\<close> copy-assigns; when an assignment throws, the
  elements assigned so far keep their new values (\<open>Inl\<close>).
\<close>

fun copy_n ::
  "'a env \<Rightarrow> 'a option list \<Rightarrow> nat \<Rightarrow> nat \<Rightarrow> 'a option list \<Rightarrow> nat
     \<Rightarrow> 'a option list + 'a option list" where
  "copy_n E src first 0 dst d_first = Inr dst"
| "copy_n E src first (Suc n) dst d_first =
     (if (case slot_at src first of None \<Rightarrow> False | Some x \<Rightarrow> assign_throws E x) then Inl dst
      else copy_n E src (Suc first) n (put_slot dst d_first (slot_at src first)) (Suc d_first))"

text \<open>
  Move assignment \<^verbatim>\<open>m[d] = std::move(m[s])\<close> and move construction
  \<^verbatim>\<open>new (m + d) T(std::move(m[s]))\<close> inside one block: slot \<open>d\<close> receives the value of slot
  \<open>s\<close>, which keeps its moved-from state.
\<close>

definition move_slot :: "'a env \<Rightarrow> 'a option list \<Rightarrow> nat \<Rightarrow> nat \<Rightarrow> 'a option list" where
  "move_slot E m s d =
     put_slot (put_slot m d (slot_at m s)) s (map_option (moved_from E) (slot_at m s))"

text \<open>
  \<^verbatim>\<open>std::move(first, last, d_first)\<close> assigns forwards and
  \<^verbatim>\<open>std::move_backward(first, last, d_last)\<close> backwards; both run \<^verbatim>\<open>last - first\<close> times.
\<close>

fun move_n :: "'a env \<Rightarrow> 'a option list \<Rightarrow> nat \<Rightarrow> nat \<Rightarrow> nat \<Rightarrow> 'a option list" where
  "move_n E m first 0 d_first = m"
| "move_n E m first (Suc n) d_first = move_n E (move_slot E m first d_first) (Suc first) n (Suc d_first)"

definition std_move :: "'a env \<Rightarrow> 'a option list \<Rightarrow> nat \<Rightarrow> nat \<Rightarrow> nat \<Rightarrow> 'a option list" where
  "std_move E m first lst d_first = move_n E m first (lst - first) d_first"

fun move_backward_n :: "'a env \<Rightarrow> 'a option list \<Rightarrow> nat \<Rightarrow> nat \<Rightarrow> nat \<Rightarrow> 'a option list" where
  "move_backward_n E m lst 0 d_last = m"
| "move_backward_n E m lst (Suc n) d_last =
     move_backward_n E (move_slot E m (lst - 1) (d_last - 1)) (lst - 1) n (d_last - 1)"

definition move_backward :: "'a env \<Rightarrow> 'a option list \<Rightarrow> nat \<Rightarrow> nat \<Rightarrow> nat \<Rightarrow> 'a option list" where
  "move_backward E m first lst d_last = move_backward_n E m lst (lst - first) d_last"

section \<open>The vector\<close>

record 'a Vector =
  data' :: "'a RawMemory"
  size' :: nat

text \<open>
  An iterator is a pointer into the block of the vector and is represented by its
  distance from \<^verbatim>\<open>begin()\<close>: \<^verbatim>\<open>begin()\<close> is 0 and \<^verbatim>\<open>end()\<close> is \<^verbatim>\<open>size_\<close>.
\<close>

definition Size :: "'a Vector \<Rightarrow> nat" where
  "Size v = size' v"

definition Capacity :: "'a Vector \<Rightarrow> nat" where
  "Capacity v = capacity' (data' v)"

definition set_cells :: "'a Vector \<Rightarrow> 'a option list \<Rightarrow> 'a Vector" where
  "set_cells v m = v\<lparr>data' := (data' v)\<lparr>cells := m\<rparr>\<rparr>"

text \<open>What a loop from \<^verbatim>\<open>begin()\<close> to \<^verbatim>\<open>end()\<close> visits: the slots 0 to \<^verbatim>\<open>size_\<close> - 1.\<close>

definition iterate :: "'a Vector \<Rightarrow> 'a option list" where
  "iterate v = map (slot_at (cells (data' v))) [0 ..< size' v]"

text \<open>\<^verbatim>\<open>Vector() = default\<close> (line 92).\<close>

definition Vector_default :: "'a Vector" where
  "Vector_default = \<lparr>data' = RawMemory_default, size' = 0\<rparr>"

text \<open>
  The constructors that allocate (lines 94 and 101). When the element constructor
  throws, the member \<^verbatim>\<open>data_\<close> is released and no vector comes into being.
\<close>

definition Vector_sized :: "'a env \<Rightarrow> nat \<Rightarrow> ('a Vector, unit, 'a) outcome" where
  "Vector_sized E n =
     (case RawMemory_new E n of
        Inl e \<Rightarrow> Throws e () []
      | Inr d \<Rightarrow>
          (case uninitialized_value_construct_n E (cells d) 0 n of
             Inl m \<Rightarrow> Throws ElementException () m
           | Inr m \<Rightarrow> Returns \<lparr>data' = d\<lparr>cells := m\<rparr>, size' = n\<rparr> () []))"

definition Vector_copy :: "'a env \<Rightarrow> 'a Vector \<Rightarrow> ('a Vector, unit, 'a) outcome" where
  "Vector_copy E other =
     (case RawMemory_new E (size' other) of
        Inl e \<Rightarrow> Throws e () []
      | Inr d \<Rightarrow>
          (case uninitialized_copy_n E (cells (data' other)) 0 (size' other) (cells d) 0 of
             Inl m \<Rightarrow> Throws ElementException () m
           | Inr m \<Rightarrow> Returns \<lparr>data' = d\<lparr>cells := m\<rparr>, size' = size' other\<rparr> () []))"

text \<open>
  The move constructor (line 108): the result is (the new vector, \<^verbatim>\<open>other\<close> afterwards).
\<close>

definition Vector_move :: "'a Vector \<Rightarrow> 'a Vector \<times> 'a Vector" where
  "Vector_move other =
     (case RawMemory_move_assign (RawMemory_default, data' other) of
        (d, od) \<Rightarrow> (\<lparr>data' = d, size' = size' other\<rparr>, other\<lparr>data' := od, size' := 0\<rparr>))"

text \<open>\<^verbatim>\<open>Swap\<close> (line 274) on the pair (\<^verbatim>\<open>*this\<close>, \<^verbatim>\<open>other\<close>).\<close>

definition Vector_Swap :: "'a Vector \<times> 'a Vector \<Rightarrow> 'a Vector \<times> 'a Vector" where
  "Vector_Swap p =
     (case p of (this, other) \<Rightarrow>
        (case RawMemory_Swap (data' this, data' other) of
           (d, od) \<Rightarrow> (this\<lparr>data' := d, size' := size' other\<rparr>,
                       other\<lparr>data' := od, size' := size' this\<rparr>)))"

text \<open>
  The destructor (line 305) destroys the \<^verbatim>\<open>size_\<close> elements; the result is the block as
  \<^verbatim>\<open>data_\<close> then releases it.
\<close>

definition Vector_dtor :: "'a Vector \<Rightarrow> 'a option list" where
  "Vector_dtor v = DestroyN (cells (data' v)) 0 (size' v)"

section \<open>Operations that reallocate\<close>

text \<open>
  \<^verbatim>\<open>Reserve\<close> (line 259). The branch taken at \<^verbatim>\<open>if constexpr\<close> moves the elements or
  copies them. After the swap the local \<^verbatim>\<open>new_data\<close> owns the old block, whose first
  \<^verbatim>\<open>size_\<close> slots are destroyed before the block is released.
\<close>

definition Reserve :: "'a env \<Rightarrow> 'a Vector \<Rightarrow> nat \<Rightarrow> (unit, 'a Vector, 'a) outcome" where
  "Reserve E v new_capacity =
     (if new_capacity \<le> capacity' (data' v) then Returns () v []
      else
        (case RawMemory_new E new_capacity of
           Inl e \<Rightarrow> Throws e v []
         | Inr new_data \<Rightarrow>
             if is_nothrow_move_constructible E \<or> \<not> is_copy_constructible E then
               (case uninitialized_move_n E (cells (data' v)) 0 (size' v) (cells new_data) 0 of
                  (old, new) \<Rightarrow>
                    (case RawMemory_Swap ((data' v)\<lparr>cells := old\<rparr>, new_data\<lparr>cells := new\<rparr>) of
                       (d, nd) \<Rightarrow> Returns () (v\<lparr>data' := d\<rparr>) (DestroyN (cells nd) 0 (size' v))))
             else
               (case uninitialized_copy_n E (cells (data' v)) 0 (size' v) (cells new_data) 0 of
                  Inl m \<Rightarrow> Throws ElementException v m
                | Inr new \<Rightarrow>
                    (case RawMemory_Swap (data' v, new_data\<lparr>cells := new\<rparr>) of
                       (d, nd) \<Rightarrow> Returns () (v\<lparr>data' := d\<rparr>) (DestroyN (cells nd) 0 (size' v))))))"

text \<open>
  \<^verbatim>\<open>Emplace\<close> (line 175) and \<^verbatim>\<open>EmplaceBack\<close> (line 216) call each other. The position
  \<open>pos\<close> is the distance of the iterator from \<^verbatim>\<open>begin()\<close>, which is what the source
  computes first as \<^verbatim>\<open>index\<close> and \<^verbatim>\<open>dist\<close>. The argument \<open>arg\<close> is the outcome of
  \<^verbatim>\<open>T(std::forward<Args>(args)...)\<close>: \<open>None\<close> when that constructor throws, \<open>Some x\<close> when it
  constructs an object of value \<open>x\<close>. \<^verbatim>\<open>Emplace\<close> returns the iterator \<^verbatim>\<open>non_const_iter\<close>,
  \<^verbatim>\<open>EmplaceBack\<close> a reference to the last element; both are given as distances from the
  vector's \<^verbatim>\<open>begin()\<close> after the call.

  In the copying branch of the growth path the second \<^verbatim>\<open>std::uninitialized_copy_n\<close> is
  called with the destination \<^verbatim>\<open>new_data.GetAddress()\<close> (line 196), which is offset 0.
\<close>

function Emplace :: "'a env \<Rightarrow> 'a Vector \<Rightarrow> nat \<Rightarrow> 'a option \<Rightarrow> (nat, 'a Vector, 'a) outcome"
  and EmplaceBack :: "'a env \<Rightarrow> 'a Vector \<Rightarrow> 'a option \<Rightarrow> (nat, 'a Vector, 'a) outcome" where
  "Emplace E v pos arg =
     (if \<not> pos \<le> size' v then Throws AssertionFailed v []
      else if size' v = Capacity v then
        (case RawMemory_new E (if size' v > 0 then size' v * 2 else 1) of
           Inl e \<Rightarrow> Throws e v []
         | Inr new_data \<Rightarrow>
             (case arg of
                None \<Rightarrow> Throws ElementException v (cells new_data)
              | Some x \<Rightarrow>
                  if is_nothrow_move_constructible E \<or> \<not> is_copy_constructible E then
                    (case uninitialized_move_n E (cells (data' v)) 0 pos
                            (construct_at (cells new_data) pos x) 0 of
                       (old1, new1) \<Rightarrow>
                         (case uninitialized_move_n E old1 pos (size' v - pos) new1 (pos + 1) of
                            (old2, new2) \<Rightarrow>
                              (case RawMemory_Swap ((data' v)\<lparr>cells := old2\<rparr>,
                                                    new_data\<lparr>cells := new2\<rparr>) of
                                 (d, nd) \<Rightarrow>
                                   Returns pos (v\<lparr>data' := d, size' := size' v + 1\<rparr>)
                                     (DestroyN (cells nd) 0 (size' v)))))
                  else
                    (case uninitialized_copy_n E (cells (data' v)) 0 pos
                            (construct_at (cells new_data) pos x) 0 of
                       Inl m \<Rightarrow> Throws ElementException v m
                     | Inr new1 \<Rightarrow>
                         (case uninitialized_copy_n E (cells (data' v)) pos (size' v - pos) new1 0 of
                            Inl m \<Rightarrow> Throws ElementException v m
                          | Inr new2 \<Rightarrow>
                              (case RawMemory_Swap (data' v, new_data\<lparr>cells := new2\<rparr>) of
                                 (d, nd) \<Rightarrow>
                                   Returns pos (v\<lparr>data' := d, size' := size' v + 1\<rparr>)
                                     (DestroyN (cells nd) 0 (size' v)))))))
      else if size' v = pos then EmplaceBack E v arg
      else
        (case arg of
           None \<Rightarrow> Throws ElementException v []
         | Some temp \<Rightarrow>
             (case RawMemory_index (data' v) (size' v - 1) of
                Inl e \<Rightarrow> Throws e v []
              | Inr back \<Rightarrow>
                  (case RawMemory_index (data' v) pos of
                     Inl e \<Rightarrow>
                       Throws e (set_cells v
                          (move_backward E (move_slot E (cells (data' v)) back (size' v))
                             pos (size' v - 1) (size' v))) []
                   | Inr i \<Rightarrow>
                       Returns pos
                         ((set_cells v
                             (put_slot
                                (move_backward E (move_slot E (cells (data' v)) back (size' v))
                                   pos (size' v - 1) (size' v))
                                i (Some temp)))\<lparr>size' := size' v + 1\<rparr>) []))))"
| "EmplaceBack E v arg =
     (if size' v = Capacity v then
        (case Emplace E v (size' v) arg of
           Returns it v' rel \<Rightarrow> Returns (size' v' - 1) v' rel
         | Throws e v' rel \<Rightarrow> Throws e v' rel)
      else
        (case arg of
           None \<Rightarrow> Throws ElementException v []
         | Some x \<Rightarrow>
             Returns (size' v + 1 - 1)
               ((set_cells v (construct_at (cells (data' v)) (size' v) x))\<lparr>size' := size' v + 1\<rparr>) []))"
  by pat_completeness auto
termination
  by (relation "measure (\<lambda>c. case c of
        Inl (E, v, pos, arg) \<Rightarrow> if size' v = Capacity v then 0 else 2
      | Inr (E, v, arg) \<Rightarrow> 1)") auto

text \<open>
  \<^verbatim>\<open>Insert\<close> (lines 157 and 160) and \<^verbatim>\<open>PushBack\<close> (lines 245 and 248): the overload for
  \<^verbatim>\<open>const T&\<close> constructs the new element with the copy constructor, the overload for
  \<^verbatim>\<open>T&&\<close> with the move constructor.
\<close>

definition copy_of :: "'a env \<Rightarrow> 'a \<Rightarrow> 'a option" where
  "copy_of E value = (if copy_throws E value then None else Some value)"

definition Insert_copy :: "'a env \<Rightarrow> 'a Vector \<Rightarrow> nat \<Rightarrow> 'a \<Rightarrow> (nat, 'a Vector, 'a) outcome" where
  "Insert_copy E v pos value = Emplace E v pos (copy_of E value)"

definition Insert_move :: "'a env \<Rightarrow> 'a Vector \<Rightarrow> nat \<Rightarrow> 'a \<Rightarrow> (nat, 'a Vector, 'a) outcome" where
  "Insert_move E v pos value = Emplace E v pos (Some value)"

definition PushBack_copy :: "'a env \<Rightarrow> 'a Vector \<Rightarrow> 'a \<Rightarrow> (unit, 'a Vector, 'a) outcome" where
  "PushBack_copy E v value =
     (case EmplaceBack E v (copy_of E value) of
        Returns r v' rel \<Rightarrow> Returns () v' rel
      | Throws e v' rel \<Rightarrow> Throws e v' rel)"

definition PushBack_move :: "'a env \<Rightarrow> 'a Vector \<Rightarrow> 'a \<Rightarrow> (unit, 'a Vector, 'a) outcome" where
  "PushBack_move E v value =
     (case EmplaceBack E v (Some value) of
        Returns r v' rel \<Rightarrow> Returns () v' rel
      | Throws e v' rel \<Rightarrow> Throws e v' rel)"

text \<open>\<^verbatim>\<open>Resize\<close> (line 228).\<close>

definition Resize :: "'a env \<Rightarrow> 'a Vector \<Rightarrow> nat \<Rightarrow> (unit, 'a Vector, 'a) outcome" where
  "Resize E v new_size =
     (if new_size = size' v then Returns () v []
      else if size' v > new_size then
        (case RawMemory_plus (data' v) new_size of
           Inl e \<Rightarrow> Throws e v []
         | Inr p \<Rightarrow>
             Returns () ((set_cells v (DestroyN (cells (data' v)) p (size' v - new_size)))
                           \<lparr>size' := new_size\<rparr>) [])
      else
        (case Reserve E v new_size of
           Throws e v1 rel \<Rightarrow> Throws e v1 rel
         | Returns r v1 rel \<Rightarrow>
             (case RawMemory_plus (data' v1) (size' v1) of
                Inl e \<Rightarrow> Throws e v1 rel
              | Inr p \<Rightarrow>
                  (case uninitialized_value_construct_n E (cells (data' v1)) p
                          (new_size - size' v1) of
                     Inl m \<Rightarrow> Throws ElementException (set_cells v1 m) rel
                   | Inr m \<Rightarrow> Returns () ((set_cells v1 m)\<lparr>size' := new_size\<rparr>) rel))))"

section \<open>Operations in place\<close>

text \<open>\<^verbatim>\<open>PopBack\<close> (line 252).\<close>

definition PopBack :: "'a Vector \<Rightarrow> 'a Vector" where
  "PopBack v =
     (if size' v > 0
      then (set_cells v (destroy_at (cells (data' v)) (size' v - 1)))\<lparr>size' := size' v - 1\<rparr>
      else v)"

text \<open>
  \<^verbatim>\<open>Erase\<close> (line 296): \<^verbatim>\<open>std::destroy_at(end())\<close> runs before \<^verbatim>\<open>--size_\<close>, so \<^verbatim>\<open>end()\<close>
  is still at the old \<^verbatim>\<open>size_\<close>.
\<close>

definition Erase :: "'a env \<Rightarrow> 'a Vector \<Rightarrow> nat \<Rightarrow> (nat, 'a Vector, 'a) outcome" where
  "Erase E v pos =
     (if \<not> pos < size' v then Throws AssertionFailed v []
      else
        Returns pos
          ((set_cells v
              (destroy_at (std_move E (cells (data' v)) (pos + 1) (size' v) pos) (size' v)))
             \<lparr>size' := size' v - 1\<rparr>) [])"

text \<open>\<^verbatim>\<open>CopyElementsFromVector\<close> (line 164), for two different vectors.\<close>

definition CopyElementsFromVector ::
  "'a env \<Rightarrow> 'a Vector \<Rightarrow> 'a Vector \<Rightarrow> (unit, 'a Vector, 'a) outcome" where
  "CopyElementsFromVector E this rhs =
     (let copy_elem = (if size' rhs < size' this then size' rhs else size' this) in
      case copy_n E (cells (data' rhs)) 0 copy_elem (cells (data' this)) 0 of
        Inl m \<Rightarrow> Throws ElementException (set_cells this m) []
      | Inr m \<Rightarrow>
          if size' rhs < size' this then
            Returns () ((set_cells this (destroy_n m copy_elem (size' this - size' rhs)))
                          \<lparr>size' := size' rhs\<rparr>) []
          else
            (case uninitialized_copy_n E (cells (data' rhs)) (size' this)
                    (size' rhs - size' this) m copy_elem of
               Inl m' \<Rightarrow> Throws ElementException (set_cells this m') []
             | Inr m' \<Rightarrow> Returns () ((set_cells this m')\<lparr>size' := size' rhs\<rparr>) []))"

section \<open>Operations on two vector objects\<close>

text \<open>
  The assignment operators compare the addresses of the two objects, so they are
  modelled on a store that maps the address of a vector object to its state.
\<close>

type_synonym 'a store = "nat \<Rightarrow> 'a Vector"

definition Swap :: "'a store \<Rightarrow> nat \<Rightarrow> nat \<Rightarrow> 'a store" where
  "Swap s this other =
     (case Vector_Swap (s this, s other) of (t, ot) \<Rightarrow> s(other := ot, this := t))"

text \<open>
  Copy assignment (line 114). The temporary \<^verbatim>\<open>rhs_copy\<close> holds the old contents of
  \<^verbatim>\<open>*this\<close> after the swap and is destroyed at the end of its block.
\<close>

definition Vector_copy_assign ::
  "'a env \<Rightarrow> 'a store \<Rightarrow> nat \<Rightarrow> nat \<Rightarrow> (unit, 'a store, 'a) outcome" where
  "Vector_copy_assign E s this rhs =
     (if this \<noteq> rhs then
        (if size' (s rhs) > capacity' (data' (s this)) then
           (case Vector_copy E (s rhs) of
              Throws e u rel \<Rightarrow> Throws e s rel
            | Returns rhs_copy u rel \<Rightarrow>
                (case Vector_Swap (s this, rhs_copy) of
                   (t, rc) \<Rightarrow> Returns () (s(this := t)) (Vector_dtor rc)))
         else
           (case CopyElementsFromVector E (s this) (s rhs) of
              Throws e t rel \<Rightarrow> Throws e (s(this := t)) rel
            | Returns r t rel \<Rightarrow> Returns () (s(this := t)) rel))
      else Returns () s [])"

text \<open>Move assignment (line 128).\<close>

definition Vector_move_assign :: "'a store \<Rightarrow> nat \<Rightarrow> nat \<Rightarrow> 'a store" where
  "Vector_move_assign s this rhs = (if this \<noteq> rhs then Swap s this rhs else s)"

section \<open>The invariant and the reachable states\<close>

text \<open>
  The invariant of a vector: its size is at most its capacity, and a handle with a null
  pointer has capacity 0 (\<^verbatim>\<open>Allocate\<close> returns the null pointer for zero elements only).
\<close>

definition vec_inv :: "'a Vector \<Rightarrow> bool" where
  "vec_inv v \<longleftrightarrow>
     size' v \<le> capacity' (data' v) \<and> (buffer' (data' v) = nullptr \<longrightarrow> capacity' (data' v) = 0)"

text \<open>
  The stores that a program can reach: it starts with default-constructed vectors, and
  each step constructs a vector at an address or calls a public operation on the object
  at an address. A call that throws leaves the object in the state the outcome records.
\<close>

inductive reachable :: "'a env \<Rightarrow> 'a store \<Rightarrow> bool" for E :: "'a env" where
  init: "reachable E (\<lambda>a. Vector_default)"
| default_ctor: "reachable E s \<Longrightarrow> reachable E (s(a := Vector_default))"
| sized_ctor: "reachable E s \<Longrightarrow> Vector_sized E n = Returns v u rel \<Longrightarrow> reachable E (s(a := v))"
| copy_ctor: "reachable E s \<Longrightarrow> a \<noteq> b \<Longrightarrow> Vector_copy E (s b) = Returns v u rel
    \<Longrightarrow> reachable E (s(a := v))"
| move_ctor: "reachable E s \<Longrightarrow> a \<noteq> b \<Longrightarrow> Vector_move (s b) = (v, ob)
    \<Longrightarrow> reachable E (s(b := ob, a := v))"
| copy_assign: "reachable E s \<Longrightarrow> reachable E (state_of (Vector_copy_assign E s a b))"
| move_assign: "reachable E s \<Longrightarrow> reachable E (Vector_move_assign s a b)"
| reserve: "reachable E s \<Longrightarrow> reachable E (s(a := state_of (Reserve E (s a) n)))"
| resize: "reachable E s \<Longrightarrow> reachable E (s(a := state_of (Resize E (s a) n)))"
| push_back_copy: "reachable E s \<Longrightarrow> reachable E (s(a := state_of (PushBack_copy E (s a) x)))"
| push_back_move: "reachable E s \<Longrightarrow> reachable E (s(a := state_of (PushBack_move E (s a) x)))"
| emplace_back: "reachable E s \<Longrightarrow> reachable E (s(a := state_of (EmplaceBack E (s a) arg)))"
| emplace: "reachable E s \<Longrightarrow> reachable E (s(a := state_of (Emplace E (s a) pos arg)))"
| insert_copy: "reachable E s \<Longrightarrow> reachable E (s(a := state_of (Insert_copy E (s a) pos x)))"
| insert_move: "reachable E s \<Longrightarrow> reachable E (s(a := state_of (Insert_move E (s a) pos x)))"
| erase: "reachable E s \<Longrightarrow> reachable E (s(a := state_of (Erase E (s a) pos)))"
| pop_back: "reachable E s \<Longrightarrow> reachable E (s(a := PopBack (s a)))"
| swap: "reachable E s \<Longrightarrow> reachable E (Swap s a b)"

text \<open>
  Pushing the values of a list one after the other with one of the two \<^verbatim>\<open>PushBack\<close>
  overloads; the first call that throws ends the run.
\<close>

fun push_all ::
  "('a Vector \<Rightarrow> 'a \<Rightarrow> (unit, 'a Vector, 'a) outcome) \<Rightarrow> 'a Vector \<Rightarrow> 'a list
     \<Rightarrow> (unit, 'a Vector, 'a) outcome" where
  "push_all push v [] = Returns () v []"
| "push_all push v (x # xs) =
     (case push v x of
        Returns r v' rel \<Rightarrow> push_all push v' xs
      | Throws e v' rel \<Rightarrow> Throws e v' rel)"

text \<open>
  A vector is well-formed when its block has as many slots as the handle says and the
  size is within the capacity.
\<close>

definition well_formed :: "'a Vector \<Rightarrow> bool" where
  "well_formed v \<longleftrightarrow>
     length (cells (data' v)) = capacity' (data' v) \<and> size' v \<le> capacity' (data' v)"

text \<open>A block in which no slot holds an object.\<close>

definition all_raw :: "'a option list \<Rightarrow> bool" where
  "all_raw m \<longleftrightarrow> list_all (\<lambda>s. s = None) m"

section \<open>Element types and vectors for the examples\<close>

text \<open>
  Three element types of four bytes over the values \<open>0, 1, 2, \<dots>\<close>, each with an allocator
  that never fails and numbers a block by the elements it has room for: \<open>env_move\<close> has a \<^verbatim>\<open>noexcept\<close> move constructor, so the moving branches are
  taken; \<open>env_copy\<close> is copyable without one, so the copying branches are taken;
  \<open>env_copy_throwing\<close> is like \<open>env_copy\<close>, with a copy constructor that throws when
  it copies the value 1.
\<close>

definition env_move :: "nat env" where
  "env_move = \<lparr>is_nothrow_move_constructible = True, is_copy_constructible = True,
     copy_throws = (\<lambda>x. False), assign_throws = (\<lambda>x. False), moved_from = (\<lambda>x. x),
     value_init = Some 0, sizeof_T = 4, operator_new = (\<lambda>b. Some (b div 4))\<rparr>"

definition env_copy :: "nat env" where
  "env_copy = \<lparr>is_nothrow_move_constructible = False, is_copy_constructible = True,
     copy_throws = (\<lambda>x. False), assign_throws = (\<lambda>x. False), moved_from = (\<lambda>x. x),
     value_init = Some 0, sizeof_T = 4, operator_new = (\<lambda>b. Some (b div 4))\<rparr>"

definition env_copy_throwing :: "nat env" where
  "env_copy_throwing = \<lparr>is_nothrow_move_constructible = False, is_copy_constructible = True,
     copy_throws = (\<lambda>x. x = 1), assign_throws = (\<lambda>x. False), moved_from = (\<lambda>x. x),
     value_init = Some 0, sizeof_T = 4, operator_new = (\<lambda>b. Some (b div 4))\<rparr>"

text \<open>The vector whose block at address \<open>a\<close> has the slots \<open>m\<close>, of which \<open>n\<close> are in use.\<close>

definition vector_of :: "nat \<Rightarrow> 'a option list \<Rightarrow> nat \<Rightarrow> 'a Vector" where
  "vector_of a m n = \<lparr>data' = \<lparr>buffer' = Addr a, capacity' = length m, cells = m\<rparr>, size' = n\<rparr>"

section \<open>Every operation keeps the invariant\<close>

declare Emplace.simps [simp del] EmplaceBack.simps [simp del]

lemma size_t_mul_mod: "size_t_mul a b = (a * b) mod 2 ^ 64"
  by (simp add: size_t_mul_def unat_word_ariths unat_of_nat mod_mult_eq)

lemma slots_no_wrap: "no_wrap E n \<Longrightarrow> size_t_mul n (sizeof_T E) div sizeof_T E = n"
  by (simp add: no_wrap_def size_t_mul_mod)

lemma request_no_wrap: "no_wrap E n \<Longrightarrow> request E n = n * sizeof_T E"
  by (simp add: no_wrap_def request_def size_t_mul_mod)

lemma all_raw_replicate: "all_raw (replicate n None)"
  by (simp add: all_raw_def list_all_iff)

lemma RawMemory_new_Inr:
  "RawMemory_new E n = Inr d \<Longrightarrow>
     capacity' d = n \<and> all_raw (cells d) \<and> (buffer' d = nullptr \<longrightarrow> n = 0)
     \<and> (no_wrap E n \<longrightarrow> cells d = replicate n None)"
  by (auto simp: RawMemory_new_def Allocate_def all_raw_replicate slots_no_wrap
      split: if_splits option.splits)

lemma vec_inv_default: "vec_inv Vector_default"
  by (simp add: vec_inv_def Vector_default_def RawMemory_default_def)

lemma vec_inv_sized: "Vector_sized E n = Returns v u rel \<Longrightarrow> vec_inv v"
  by (auto simp: Vector_sized_def vec_inv_def split: sum.splits dest!: RawMemory_new_Inr)

lemma vec_inv_copy: "Vector_copy E w = Returns v u rel \<Longrightarrow> vec_inv v"
  by (auto simp: Vector_copy_def vec_inv_def split: sum.splits dest!: RawMemory_new_Inr)

lemma vec_inv_move: "vec_inv w \<Longrightarrow> Vector_move w = (v, ob) \<Longrightarrow> vec_inv v \<and> vec_inv ob"
  by (auto simp: Vector_move_def vec_inv_def RawMemory_move_assign_def RawMemory_Swap_def
      RawMemory_default_def split: if_splits)

lemma vec_inv_Vector_Swap:
  "vec_inv a \<Longrightarrow> vec_inv b \<Longrightarrow> Vector_Swap (a, b) = (a', b') \<Longrightarrow> vec_inv a' \<and> vec_inv b'"
  by (auto simp: Vector_Swap_def vec_inv_def RawMemory_Swap_def)

lemma vec_inv_set_cells [simp]: "vec_inv (set_cells v m) = vec_inv v"
  by (simp add: vec_inv_def set_cells_def)

lemma vec_inv_Reserve: "vec_inv v \<Longrightarrow> vec_inv (state_of (Reserve E v n))"
  by (auto simp: Reserve_def vec_inv_def RawMemory_Swap_def
      split: sum.splits prod.splits dest!: RawMemory_new_Inr)

lemma Reserve_capacity:
  "Reserve E v n = Returns r v1 rel \<Longrightarrow> n \<le> capacity' (data' v1) \<and> size' v1 = size' v"
  by (auto simp: Reserve_def RawMemory_Swap_def
      split: if_splits sum.splits prod.splits dest!: RawMemory_new_Inr)

lemma vec_inv_Resize: "vec_inv v \<Longrightarrow> vec_inv (state_of (Resize E v n))"
proof -
  assume inv: "vec_inv v"
  show ?thesis
  proof (cases "Reserve E v n")
    case (Returns r v1 rel)
    from vec_inv_Reserve [OF inv, of E n] Returns have "vec_inv v1" by simp
    with Reserve_capacity [OF Returns] inv Returns show ?thesis
      by (auto simp: Resize_def vec_inv_def set_cells_def RawMemory_plus_def split: sum.splits)
  next
    case (Throws e v1 rel)
    from vec_inv_Reserve [OF inv, of E n] Throws have "vec_inv v1" by simp
    with inv Throws show ?thesis
      by (auto simp: Resize_def vec_inv_def set_cells_def RawMemory_plus_def split: sum.splits)
  qed
qed

lemma vec_inv_Emplace_full:
  "size' v = Capacity v \<Longrightarrow> vec_inv v \<Longrightarrow> vec_inv (state_of (Emplace E v pos arg))"
  by (auto simp: Emplace.simps [of E v pos arg] vec_inv_def RawMemory_Swap_def Capacity_def
      split: sum.splits prod.splits option.splits dest!: RawMemory_new_Inr)

lemma vec_inv_EmplaceBack: "vec_inv v \<Longrightarrow> vec_inv (state_of (EmplaceBack E v arg))"
proof (cases "size' v = Capacity v")
  case True
  assume "vec_inv v"
  from vec_inv_Emplace_full [OF True this, of E "size' v" arg] True show ?thesis
    by (cases "Emplace E v (size' v) arg") (simp_all add: EmplaceBack.simps [of E v arg])
next
  case False
  assume "vec_inv v"
  with False show ?thesis
    by (auto simp: EmplaceBack.simps [of E v arg] vec_inv_def set_cells_def Capacity_def
        split: option.splits)
qed

lemma vec_inv_Emplace: "vec_inv v \<Longrightarrow> vec_inv (state_of (Emplace E v pos arg))"
proof -
  assume inv: "vec_inv v"
  consider (grow) "size' v = Capacity v" | (atend) "size' v \<noteq> Capacity v" "size' v = pos"
    | (inner) "size' v \<noteq> Capacity v" "size' v \<noteq> pos" by blast
  then show ?thesis
  proof cases
    case grow
    then show ?thesis using inv by (rule vec_inv_Emplace_full)
  next
    case atend
    with vec_inv_EmplaceBack [OF inv, of E arg] show ?thesis
      by (simp add: Emplace.simps [of E v pos arg])
  next
    case inner
    with inv show ?thesis
      by (auto simp: Emplace.simps [of E v pos arg] vec_inv_def set_cells_def Capacity_def
          RawMemory_index_def split: option.splits)
  qed
qed

lemma vec_inv_PushBack_copy: "vec_inv v \<Longrightarrow> vec_inv (state_of (PushBack_copy E v x))"
  using vec_inv_EmplaceBack [of v E "copy_of E x"]
  by (cases "EmplaceBack E v (copy_of E x)") (simp_all add: PushBack_copy_def)

lemma vec_inv_PushBack_move: "vec_inv v \<Longrightarrow> vec_inv (state_of (PushBack_move E v x))"
  using vec_inv_EmplaceBack [of v E "Some x"]
  by (cases "EmplaceBack E v (Some x)") (simp_all add: PushBack_move_def)

lemma vec_inv_Erase: "vec_inv v \<Longrightarrow> vec_inv (state_of (Erase E v pos))"
  by (auto simp: Erase_def vec_inv_def set_cells_def)

lemma vec_inv_PopBack: "vec_inv v \<Longrightarrow> vec_inv (PopBack v)"
  by (auto simp: PopBack_def vec_inv_def set_cells_def)

lemma vec_inv_CopyElements:
  "vec_inv this \<Longrightarrow> size' rhs \<le> capacity' (data' this) \<Longrightarrow>
     vec_inv (state_of (CopyElementsFromVector E this rhs))"
  by (auto simp: CopyElementsFromVector_def vec_inv_def set_cells_def Let_def split: sum.splits)

lemma vec_inv_copy_assign:
  assumes "\<forall>a. vec_inv (s a)"
  shows "vec_inv (state_of (Vector_copy_assign E s this rhs) a)"
proof (cases "this \<noteq> rhs \<and> size' (s rhs) > capacity' (data' (s this))")
  case True
  show ?thesis
  proof (cases "Vector_copy E (s rhs)")
    case (Returns c u rel)
    obtain t rc where sw: "Vector_Swap (s this, c) = (t, rc)" by (cases "Vector_Swap (s this, c)")
    from vec_inv_copy [OF Returns] assms vec_inv_Vector_Swap [OF _ _ sw] have "vec_inv t" by blast
    with True Returns sw assms show ?thesis by (simp add: Vector_copy_assign_def)
  next
    case (Throws e u rel)
    with True assms show ?thesis by (simp add: Vector_copy_assign_def)
  qed
next
  case False
  show ?thesis
  proof (cases "this = rhs")
    case True
    with assms show ?thesis by (simp add: Vector_copy_assign_def)
  next
    case neq: False
    with False have le: "size' (s rhs) \<le> capacity' (data' (s this))" by simp
    from assms have "vec_inv (s this)" by blast
    from vec_inv_CopyElements [OF this le, of E] neq le assms show ?thesis
      by (cases "CopyElementsFromVector E (s this) (s rhs)") (simp_all add: Vector_copy_assign_def)
  qed
qed

lemma vec_inv_store_Swap:
  assumes "\<forall>a. vec_inv (s a)"
  shows "vec_inv (Swap s this other a)"
proof -
  obtain t ot where sw: "Vector_Swap (s this, s other) = (t, ot)"
    by (cases "Vector_Swap (s this, s other)")
  from assms vec_inv_Vector_Swap [OF _ _ sw] have "vec_inv t" "vec_inv ot" by blast+
  with sw assms show ?thesis by (simp add: Swap_def)
qed

lemma reachable_inv: "reachable E s \<Longrightarrow> \<forall>a. vec_inv (s a)"
proof (induction rule: reachable.induct)
  case init
  show ?case by (simp add: vec_inv_default)
next
  case (default_ctor s a)
  then show ?case by (simp add: vec_inv_default)
next
  case (sized_ctor s n v u rel a)
  then show ?case by (simp add: vec_inv_sized)
next
  case (copy_ctor s a b v u rel)
  then show ?case by (simp add: vec_inv_copy)
next
  case (move_ctor s a b v ob)
  from move_ctor.IH have "vec_inv (s b)" by blast
  from vec_inv_move [OF this move_ctor.hyps(3)] move_ctor.IH show ?case by simp
next
  case (copy_assign s a b)
  then show ?case by (simp add: vec_inv_copy_assign)
next
  case (move_assign s a b)
  then show ?case by (simp add: Vector_move_assign_def vec_inv_store_Swap)
next
  case (swap s a b)
  then show ?case by (simp add: vec_inv_store_Swap)
qed (simp_all add: vec_inv_Reserve vec_inv_Resize vec_inv_PushBack_copy vec_inv_PushBack_move
    vec_inv_EmplaceBack vec_inv_Emplace vec_inv_Erase vec_inv_PopBack Insert_copy_def
    Insert_move_def)

section \<open>What the loops do to the slots\<close>

lemma length_put_slot [simp]: "length (put_slot m i s) = length m"
  by (simp add: put_slot_def)

lemma slot_at_put_slot:
  "slot_at (put_slot m i s) j = (if j = i \<and> i < length m then s else slot_at m j)"
  by (auto simp: slot_at_def put_slot_def)

lemma slot_at_replicate [simp]: "slot_at (replicate n None) j = None"
  by (simp add: slot_at_def)

lemma length_destroy_at [simp]: "length (destroy_at m i) = length m"
  by (simp add: destroy_at_def)

lemma length_construct_at [simp]: "length (construct_at m i x) = length m"
  by (simp add: construct_at_def)

lemma uninitialized_move_n_length:
  "length (snd (uninitialized_move_n E src f n dst d)) = length dst"
  by (induction n arbitrary: src f dst d) simp_all

lemma uninitialized_move_n_dst:
  "slot_at (snd (uninitialized_move_n E src f n dst d)) j =
     (if d \<le> j \<and> j < d + n \<and> j < length dst then slot_at src (f + (j - d)) else slot_at dst j)"
proof (induction n arbitrary: src f dst d)
  case 0
  show ?case by auto
next
  case (Suc n)
  show ?case
  proof (cases "j = d")
    case True
    show ?thesis unfolding True by (simp add: Suc.IH [unfolded True] slot_at_put_slot)
  next
    case False
    have "j > d \<Longrightarrow> Suc (f + (j - Suc d)) = f + (j - d)" by arith
    with False show ?thesis by (auto simp: Suc.IH slot_at_put_slot)
  qed
qed

lemma uninitialized_copy_n_Inr:
  "uninitialized_copy_n E src f n dst d = Inr dst' \<Longrightarrow>
     length dst' = length dst
     \<and> (\<forall>j. slot_at dst' j =
          (if d \<le> j \<and> j < d + n \<and> j < length dst then slot_at src (f + (j - d))
           else slot_at dst j))"
proof (induction n arbitrary: f dst d)
  case 0
  then show ?case by auto
next
  case (Suc n)
  from Suc.prems obtain
    rec: "uninitialized_copy_n E src (Suc f) n (put_slot dst d (slot_at src f)) (Suc d) = Inr dst'"
    by (auto split: if_splits sum.splits)
  note ih = Suc.IH [OF rec]
  have ar: "\<And>j. j > d \<Longrightarrow> Suc (f + (j - Suc d)) = f + (j - d)" by arith
  show ?case
  proof (intro conjI allI)
    show "length dst' = length dst" using ih by simp
  next
    fix j
    show "slot_at dst' j =
      (if d \<le> j \<and> j < d + Suc n \<and> j < length dst then slot_at src (f + (j - d)) else slot_at dst j)"
    proof (cases "j = d")
      case True
      then show ?thesis using ih by (simp add: slot_at_put_slot)
    next
      case False
      then show ?thesis using ih ar [of j] by (auto simp: slot_at_put_slot)
    qed
  qed
qed

lemma uninitialized_copy_n_Inl:
  "uninitialized_copy_n E src f n dst d = Inl m \<Longrightarrow>
     length m = length dst \<and> (\<forall>j. slot_at m j = None \<or> slot_at m j = slot_at dst j)"
proof (induction n arbitrary: f dst d m)
  case 0
  then show ?case by simp
next
  case (Suc n)
  show ?case
  proof (cases "case slot_at src f of None \<Rightarrow> False | Some x \<Rightarrow> copy_throws E x")
    case True
    with Suc.prems show ?thesis by simp
  next
    case False
    with Suc.prems obtain m' where
      rec: "uninitialized_copy_n E src (Suc f) n (put_slot dst d (slot_at src f)) (Suc d) = Inl m'"
      and m: "m = destroy_at m' d"
      by (auto split: sum.splits)
    from Suc.IH [OF rec] show ?thesis
      unfolding m destroy_at_def by (auto simp: slot_at_put_slot)
  qed
qed

lemma uninitialized_copy_n_succeeds:
  "(\<forall>k<n. \<forall>x. slot_at src (f + k) = Some x \<longrightarrow> \<not> copy_throws E x) \<Longrightarrow>
     \<exists>dst'. uninitialized_copy_n E src f n dst d = Inr dst'"
proof (induction n arbitrary: f dst d)
  case 0
  show ?case by simp
next
  case (Suc n)
  have "\<forall>k<n. \<forall>x. slot_at src (Suc f + k) = Some x \<longrightarrow> \<not> copy_throws E x"
    using Suc.prems by (metis Suc_less_eq add_Suc_shift)
  from Suc.IH [OF this] obtain dst' where
    "uninitialized_copy_n E src (Suc f) n (put_slot dst d (slot_at src f)) (Suc d) = Inr dst'"
    by blast
  moreover have "\<not> (case slot_at src f of None \<Rightarrow> False | Some x \<Rightarrow> copy_throws E x)"
    using Suc.prems [rule_format, of 0] by (auto split: option.splits)
  ultimately show ?case by simp
qed

lemma RawMemory_new_succeeds:
  "operator_new E (request E n) \<noteq> None \<Longrightarrow> \<exists>d. RawMemory_new E n = Inr d"
  by (auto simp: RawMemory_new_def Allocate_def request_def)




section \<open>Growth and insertion at the end\<close>

lemma Emplace_grow_result:
  "size' v = Capacity v \<Longrightarrow> Emplace E v pos arg = Returns r v' rel \<Longrightarrow>
     r = pos \<and> size' v' = size' v + 1
     \<and> capacity' (data' v') = (if size' v > 0 then size' v * 2 else 1)"
  by (auto simp: Emplace.simps [of E v pos arg] RawMemory_Swap_def
      split: if_splits sum.splits option.splits prod.splits dest!: RawMemory_new_Inr)

lemma EmplaceBack_grow_result:
  "size' v = Capacity v \<Longrightarrow> EmplaceBack E v arg = Returns r v' rel \<Longrightarrow>
     capacity' (data' v') = (if size' v > 0 then size' v * 2 else 1)"
proof -
  assume full: "size' v = Capacity v" and eb: "EmplaceBack E v arg = Returns r v' rel"
  from eb obtain it where "Emplace E v (size' v) arg = Returns it v' rel"
    by (cases "Emplace E v (size' v) arg")
       (simp_all add: EmplaceBack.simps [of E v arg] full [symmetric])
  from Emplace_grow_result [OF full this] show ?thesis by simp
qed

lemma slot_at_construct_at:
  "slot_at (construct_at m i x) j = (if j = i \<and> i < length m then Some x else slot_at m j)"
  by (simp add: construct_at_def slot_at_put_slot)

lemma iterate_snoc:
  assumes "size' v' = size' v + 1"
    and "\<And>j. j < size' v \<Longrightarrow> slot_at (cells (data' v')) j = slot_at (cells (data' v)) j"
    and "slot_at (cells (data' v')) (size' v) = s"
  shows "iterate v' = iterate v @ [s]"
  using assms by (simp add: iterate_def)

lemma iterate_mem: "k < size' v \<Longrightarrow> slot_at (cells (data' v)) k \<in> set (iterate v)"
  by (simp add: iterate_def)

lemma EmplaceBack_spare:
  assumes "well_formed v" and "size' v \<noteq> Capacity v"
  shows "\<exists>v'. EmplaceBack E v (Some x) = Returns (size' v) v' []
           \<and> well_formed v' \<and> iterate v' = iterate v @ [Some x]"
proof -
  from assms have lt: "size' v < length (cells (data' v))"
    by (simp add: well_formed_def Capacity_def)
  let ?v' = "(set_cells v (construct_at (cells (data' v)) (size' v) x))\<lparr>size' := size' v + 1\<rparr>"
  have "EmplaceBack E v (Some x) = Returns (size' v) ?v' []"
    using assms(2) by (simp add: EmplaceBack.simps [of E v "Some x"])
  moreover have "well_formed ?v'"
    using assms lt by (simp add: well_formed_def set_cells_def Capacity_def)
  moreover have "iterate ?v' = iterate v @ [Some x]"
    by (rule iterate_snoc) (use lt in \<open>simp_all add: set_cells_def slot_at_construct_at\<close>)
  ultimately show ?thesis by blast
qed

lemma Emplace_grow_at_end:
  assumes wf: "well_formed v" and full: "size' v = Capacity v"
    and alloc: "operator_new E (request E (if size' v > 0 then size' v * 2 else 1)) \<noteq> None"
    and fits: "no_wrap E (if size' v > 0 then size' v * 2 else 1)"
    and nothrow: "is_nothrow_move_constructible E \<or> \<not> is_copy_constructible E
       \<or> (\<forall>k < size' v. \<forall>y. slot_at (cells (data' v)) k = Some y \<longrightarrow> \<not> copy_throws E y)"
  shows "\<exists>v' rel. Emplace E v (size' v) (Some x) = Returns (size' v) v' rel
           \<and> well_formed v' \<and> iterate v' = iterate v @ [Some x]"
proof -
  let ?N = "if size' v > 0 then size' v * 2 else 1"
  from RawMemory_new_succeeds [OF alloc] obtain nd where nd: "RawMemory_new E ?N = Inr nd" by blast
  from RawMemory_new_Inr [OF nd] fits
  have ndf: "capacity' nd = ?N \<and> cells nd = replicate ?N None" by simp
  have lt: "size' v < ?N" by simp
  let ?c = "construct_at (cells nd) (size' v) x"
  have lenc: "length ?c = ?N" using ndf by simp
  show ?thesis
  proof (cases "is_nothrow_move_constructible E \<or> \<not> is_copy_constructible E")
    case True
    obtain old new where mv:
      "uninitialized_move_n E (cells (data' v)) 0 (size' v) ?c 0 = (old, new)"
      by (cases "uninitialized_move_n E (cells (data' v)) 0 (size' v) ?c 0")
    let ?v' = "v\<lparr>data' := nd\<lparr>cells := new\<rparr>, size' := size' v + 1\<rparr>"
    have run: "Emplace E v (size' v) (Some x) = Returns (size' v) ?v' (DestroyN old 0 (size' v))"
      using True nd mv
      by (simp add: Emplace.simps [of E v "size' v" "Some x"] RawMemory_Swap_def full [symmetric])
    have new: "slot_at new j = (if j < size' v then slot_at (cells (data' v)) j else slot_at ?c j)" for j
      using uninitialized_move_n_dst [of E "cells (data' v)" 0 "size' v" ?c 0 j] mv lenc lt by auto
    have lnew: "length new = ?N"
      using uninitialized_move_n_length [of E "cells (data' v)" 0 "size' v" ?c 0] mv lenc by simp
    have "well_formed ?v'" using lnew ndf by (simp add: well_formed_def)
    moreover have "iterate ?v' = iterate v @ [Some x]"
      by (rule iterate_snoc) (use new ndf lt in \<open>simp_all add: slot_at_construct_at\<close>)
    ultimately show ?thesis using run by blast
  next
    case False
    with nothrow have "\<forall>k < size' v. \<forall>y. slot_at (cells (data' v)) (0 + k) = Some y \<longrightarrow> \<not> copy_throws E y"
      by simp
    from uninitialized_copy_n_succeeds [OF this] obtain new where cp:
      "uninitialized_copy_n E (cells (data' v)) 0 (size' v) ?c 0 = Inr new" by blast
    let ?v' = "v\<lparr>data' := nd\<lparr>cells := new\<rparr>, size' := size' v + 1\<rparr>"
    have run: "Emplace E v (size' v) (Some x) = Returns (size' v) ?v' (DestroyN (cells (data' v)) 0 (size' v))"
      using False nd cp
      by (simp add: Emplace.simps [of E v "size' v" "Some x"] RawMemory_Swap_def full [symmetric])
    have new: "slot_at new j = (if j < size' v then slot_at (cells (data' v)) j else slot_at ?c j)" for j
      using uninitialized_copy_n_Inr [OF cp] lenc lt by auto
    have lnew: "length new = ?N"
      using uninitialized_copy_n_Inr [OF cp] lenc by simp
    have "well_formed ?v'" using lnew ndf by (simp add: well_formed_def)
    moreover have "iterate ?v' = iterate v @ [Some x]"
      by (rule iterate_snoc) (use new ndf lt in \<open>simp_all add: slot_at_construct_at\<close>)
    ultimately show ?thesis using run by blast
  qed
qed

lemma no_wrap_mono: "no_wrap E m \<Longrightarrow> n \<le> m \<Longrightarrow> no_wrap E n"
proof -
  assume m: "no_wrap E m" and le: "n \<le> m"
  from m have s: "0 < sizeof_T E" and b: "m * sizeof_T E < 2 ^ 64"
    by (simp_all add: no_wrap_def)
  from le have "n * sizeof_T E \<le> m * sizeof_T E" by (rule mult_le_mono1)
  then have "n * sizeof_T E < 2 ^ 64" using b by (rule le_less_trans)
  with s show ?thesis by (simp add: no_wrap_def)
qed

lemma EmplaceBack_appends:
  assumes wf: "well_formed v"
    and alloc: "\<forall>n. operator_new E n \<noteq> None"
    and fits: "no_wrap E (2 * (size' v + 1))"
    and nothrow: "is_nothrow_move_constructible E \<or> \<not> is_copy_constructible E
       \<or> (\<forall>y. Some y \<in> set (iterate v) \<longrightarrow> \<not> copy_throws E y)"
  shows "\<exists>r v' rel. EmplaceBack E v (Some x) = Returns r v' rel
           \<and> well_formed v' \<and> iterate v' = iterate v @ [Some x]"
proof (cases "size' v = Capacity v")
  case True
  have "is_nothrow_move_constructible E \<or> \<not> is_copy_constructible E
       \<or> (\<forall>k < size' v. \<forall>y. slot_at (cells (data' v)) k = Some y \<longrightarrow> \<not> copy_throws E y)"
    using nothrow iterate_mem [of _ v] by metis
  moreover have "no_wrap E (if size' v > 0 then size' v * 2 else 1)"
    by (rule no_wrap_mono [OF fits]) simp
  ultimately have "\<exists>v' rel. Emplace E v (size' v) (Some x) = Returns (size' v) v' rel
           \<and> well_formed v' \<and> iterate v' = iterate v @ [Some x]"
    using Emplace_grow_at_end [OF wf True alloc [rule_format], of x] by blast
  then
  obtain v' rel where "Emplace E v (size' v) (Some x) = Returns (size' v) v' rel"
    "well_formed v'" "iterate v' = iterate v @ [Some x]" by blast
  then show ?thesis by (simp add: EmplaceBack.simps [of E v "Some x"] True [symmetric])
next
  case False
  from EmplaceBack_spare [OF wf False, of E x] show ?thesis by blast
qed

lemma push_all_appends:
  assumes "\<forall>n. operator_new E n \<noteq> None"
  shows "well_formed v \<Longrightarrow> \<forall>y. Some y \<in> set (iterate v) \<longrightarrow> \<not> copy_throws E y \<Longrightarrow>
         \<forall>y\<in>set xs. \<not> copy_throws E y \<Longrightarrow> no_wrap E (2 * (size' v + length xs)) \<Longrightarrow>
     (\<exists>v'. push_all (PushBack_copy E) v xs = Returns () v' []
            \<and> iterate v' = iterate v @ map Some xs)
     \<and> (\<exists>v'. push_all (PushBack_move E) v xs = Returns () v' []
            \<and> iterate v' = iterate v @ map Some xs)"
proof (induction xs arbitrary: v)
  case Nil
  show ?case by simp
next
  case (Cons x xs)
  from Cons.prems(2) have nt: "is_nothrow_move_constructible E \<or> \<not> is_copy_constructible E
       \<or> (\<forall>y. Some y \<in> set (iterate v) \<longrightarrow> \<not> copy_throws E y)" by blast
  have fits1: "no_wrap E (2 * (size' v + 1))"
    by (rule no_wrap_mono [OF Cons.prems(4)]) simp
  from EmplaceBack_appends [OF Cons.prems(1) assms fits1 nt, of x]
  obtain r v1 rel where step: "EmplaceBack E v (Some x) = Returns r v1 rel"
    and wf1: "well_formed v1" and it1: "iterate v1 = iterate v @ [Some x]" by blast
  from it1 have "length (iterate v1) = length (iterate v) + 1" by simp
  then have sz1: "size' v1 = size' v + 1" by (simp add: iterate_def)
  have fits': "no_wrap E (2 * (size' v1 + length xs))"
    using Cons.prems(4) sz1 by simp
  have el1: "\<forall>y. Some y \<in> set (iterate v1) \<longrightarrow> \<not> copy_throws E y"
    using it1 Cons.prems(2,3) by auto
  have rest: "\<forall>y\<in>set xs. \<not> copy_throws E y" using Cons.prems(3) by simp
  have cx: "copy_of E x = Some x" using Cons.prems(3) by (simp add: copy_of_def)
  from Cons.IH [OF wf1 el1 rest fits'] step it1 cx show ?case
    by (simp add: PushBack_copy_def PushBack_move_def)
qed

lemma well_formed_default: "well_formed Vector_default"
  by (simp add: well_formed_def Vector_default_def RawMemory_default_def)

lemma iterate_default: "iterate Vector_default = []"
  by (simp add: iterate_def Vector_default_def)

section \<open>Failures that leave the vector unchanged\<close>

text \<open>
  When \<^verbatim>\<open>Reserve\<close> or a copy assignment that needs growth throws, the vector is as before
  and the abandoned block holds no object. When an insertion into a full vector or an
  allocation in \<^verbatim>\<open>Resize\<close> throws, the vector is as before.
\<close>

lemma all_raw_slots: "all_raw m \<longleftrightarrow> (\<forall>j. slot_at m j = None)"
proof
  assume "all_raw m"
  then show "\<forall>j. slot_at m j = None"
    by (auto simp: all_raw_def list_all_iff slot_at_def)
next
  assume a: "\<forall>j. slot_at m j = None"
  have "\<forall>s\<in>set m. s = None"
  proof
    fix s assume "s \<in> set m"
    then obtain j where "j < length m" "m ! j = s" by (auto simp: in_set_conv_nth)
    with a [rule_format, of j] show "s = None" by (simp add: slot_at_def)
  qed
  then show "all_raw m" by (simp add: all_raw_def list_all_iff)
qed

lemma uninitialized_copy_n_Inl_raw:
  "uninitialized_copy_n E src f n dst d = Inl m \<Longrightarrow> all_raw dst \<Longrightarrow> all_raw m"
  using uninitialized_copy_n_Inl [of E src f n dst d m] by (auto simp: all_raw_slots)

lemma Reserve_failure:
  assumes "Reserve E v n = Throws e v' rel"
  shows "v' = v \<and> all_raw rel"
proof (cases "n \<le> capacity' (data' v)")
  case True
  with assms show ?thesis by (simp add: Reserve_def)
next
  case False
  show ?thesis
  proof (cases "RawMemory_new E n")
    case (Inl e')
    with False assms show ?thesis by (simp add: Reserve_def all_raw_def)
  next
    case (Inr nd)
    from RawMemory_new_Inr [OF Inr] have raw: "all_raw (cells nd)" by simp
    show ?thesis
    proof (cases "is_nothrow_move_constructible E \<or> \<not> is_copy_constructible E")
      case True
      with False Inr assms show ?thesis
        by (auto simp: Reserve_def RawMemory_Swap_def split: prod.splits)
    next
      case nc: False
      with False Inr assms obtain m where
        "uninitialized_copy_n E (cells (data' v)) 0 (size' v) (cells nd) 0 = Inl m"
        and "v' = v" and "rel = m"
        by (auto simp: Reserve_def RawMemory_Swap_def split: sum.splits)
      with uninitialized_copy_n_Inl_raw [OF _ raw] show ?thesis by blast
    qed
  qed
qed

lemma Vector_copy_failure: "Vector_copy E w = Throws e u rel \<Longrightarrow> all_raw rel"
proof -
  assume a: "Vector_copy E w = Throws e u rel"
  show ?thesis
  proof (cases "RawMemory_new E (size' w)")
    case (Inl e')
    with a show ?thesis by (simp add: Vector_copy_def all_raw_def)
  next
    case (Inr nd)
    from RawMemory_new_Inr [OF Inr] have raw: "all_raw (cells nd)" by simp
    from Inr a obtain m where
      "uninitialized_copy_n E (cells (data' w)) 0 (size' w) (cells nd) 0 = Inl m" and "rel = m"
      by (auto simp: Vector_copy_def split: sum.splits)
    with uninitialized_copy_n_Inl_raw [OF _ raw] show ?thesis by blast
  qed
qed

lemma copy_assign_growth_failure:
  assumes "this \<noteq> rhs" and "size' (s rhs) > capacity' (data' (s this))"
    and "Vector_copy_assign E s this rhs = Throws e s' rel"
  shows "s' = s \<and> all_raw rel"
proof (cases "Vector_copy E (s rhs)")
  case (Returns c u l)
  with assms show ?thesis by (simp add: Vector_copy_assign_def split: prod.splits)
next
  case (Throws e' u l)
  with assms Vector_copy_failure [OF Throws] show ?thesis
    by (simp add: Vector_copy_assign_def)
qed

lemma Emplace_growth_failure:
  "size' v = Capacity v \<Longrightarrow> Emplace E v pos arg = Throws e v' rel \<Longrightarrow> v' = v"
  by (auto simp: Emplace.simps [of E v pos arg] RawMemory_Swap_def
      split: if_splits sum.splits option.splits prod.splits)

lemma EmplaceBack_growth_failure:
  "size' v = Capacity v \<Longrightarrow> EmplaceBack E v arg = Throws e v' rel \<Longrightarrow> v' = v"
proof -
  assume full: "size' v = Capacity v" and eb: "EmplaceBack E v arg = Throws e v' rel"
  from eb have "Emplace E v (size' v) arg = Throws e v' rel"
    by (cases "Emplace E v (size' v) arg")
       (simp_all add: EmplaceBack.simps [of E v arg] full [symmetric])
  from Emplace_growth_failure [OF full this] show ?thesis .
qed

lemma Resize_failure_BadAlloc:
  "Resize E v n = Throws BadAlloc v' rel \<Longrightarrow> v' = v"
proof -
  assume a: "Resize E v n = Throws BadAlloc v' rel"
  show ?thesis
  proof (cases "Reserve E v n")
    case (Returns r v1 l)
    with a show ?thesis
      by (auto simp: Resize_def RawMemory_plus_def split: if_splits sum.splits)
  next
    case (Throws e1 v1 l)
    with a Reserve_failure [OF Throws] show ?thesis
      by (auto simp: Resize_def RawMemory_plus_def split: if_splits sum.splits)
  qed
qed

section \<open>Shifting inside a block\<close>

lemma length_move_slot [simp]: "length (move_slot E m s d) = length m"
  by (simp add: move_slot_def)

lemma slot_at_move_slot:
  "s < length m \<Longrightarrow> d < length m \<Longrightarrow> s \<noteq> d \<Longrightarrow>
     slot_at (move_slot E m s d) j =
       (if j = s then map_option (moved_from E) (slot_at m s)
        else if j = d then slot_at m s else slot_at m j)"
  by (simp add: move_slot_def slot_at_put_slot)

lemma length_move_n [simp]: "length (move_n E m first n d) = length m"
  by (induction n arbitrary: m first d) simp_all

lemma length_move_backward_n [simp]: "length (move_backward_n E m lst n d) = length m"
  by (induction n arbitrary: m lst d) simp_all

lemma move_n_shift_left:
  "d + n < length m \<Longrightarrow>
     slot_at (move_n E m (Suc d) n d) j =
       (if d \<le> j \<and> j < d + n then slot_at m (Suc j)
        else if j = d + n \<and> 0 < n then map_option (moved_from E) (slot_at m j)
        else slot_at m j)"
proof (induction n arbitrary: m d)
  case 0
  show ?case by auto
next
  case (Suc n)
  let ?m = "move_slot E m (Suc d) d"
  have len: "Suc d + n < length ?m" using Suc.prems by simp
  have ms: "slot_at ?m k =
       (if k = Suc d then map_option (moved_from E) (slot_at m (Suc d))
        else if k = d then slot_at m (Suc d) else slot_at m k)" for k
    using Suc.prems by (simp add: slot_at_move_slot)
  show ?case
    unfolding move_n.simps Suc.IH [OF len] ms by auto
qed

lemma move_backward_n_shift_right:
  "lst < length m \<Longrightarrow> n \<le> lst \<Longrightarrow>
     slot_at (move_backward_n E m lst n (Suc lst)) j =
       (if lst - n < j \<and> j \<le> lst then slot_at m (j - 1)
        else if j = lst - n \<and> 0 < n then map_option (moved_from E) (slot_at m j)
        else slot_at m j)"
proof (induction n arbitrary: m lst)
  case 0
  show ?case by auto
next
  case (Suc n)
  from Suc.prems obtain l where l: "lst = Suc l" by (cases lst) auto
  let ?m = "move_slot E m l lst"
  have len: "l < length ?m" and le: "n \<le> l" using Suc.prems l by simp_all
  have ms: "slot_at ?m k =
       (if k = l then map_option (moved_from E) (slot_at m l)
        else if k = lst then slot_at m l else slot_at m k)" for k
    using Suc.prems l by (simp add: slot_at_move_slot)
  have step: "move_backward_n E m lst (Suc n) (Suc lst) = move_backward_n E ?m l n (Suc l)"
    by (simp add: l)
  show ?case
    unfolding step Suc.IH [OF len le] ms using l le by auto
qed

section \<open>What Erase does\<close>

text \<open>
  On a valid position \<^verbatim>\<open>Erase\<close> returns that position, shifts the later elements one
  slot to the left and decrements the size. The slot at the old index \<open>size - 1\<close> keeps
  its object (moved-from when a shift took place), and the slot at the old index
  \<open>size\<close> is the one that is destroyed.
\<close>

lemma iterate_nth: "i < size' v \<Longrightarrow> iterate v ! i = slot_at (cells (data' v)) i"
  by (simp add: iterate_def)

lemma length_iterate [simp]: "length (iterate v) = size' v"
  by (simp add: iterate_def)

lemma iterate_insert:
  assumes "size' v' = size' v + 1" and "pos \<le> size' v"
    and "\<And>j. j < pos \<Longrightarrow> slot_at (cells (data' v')) j = slot_at (cells (data' v)) j"
    and "slot_at (cells (data' v')) pos = s"
    and "\<And>j. pos < j \<Longrightarrow> j \<le> size' v \<Longrightarrow>
           slot_at (cells (data' v')) j = slot_at (cells (data' v)) (j - 1)"
  shows "iterate v' = take pos (iterate v) @ [s] @ drop pos (iterate v)"
proof (rule nth_equalityI)
  show "length (iterate v') = length (take pos (iterate v) @ [s] @ drop pos (iterate v))"
    using assms(1,2) by simp
next
  fix i assume "i < length (iterate v')"
  then have i: "i < size' v + 1" using assms(1) by simp
  consider "i < pos" | "i = pos" | "pos < i" by arith
  then show "iterate v' ! i = (take pos (iterate v) @ [s] @ drop pos (iterate v)) ! i"
  proof cases
    case 1
    with i assms(1,2,3) show ?thesis by (simp add: iterate_nth nth_append)
  next
    case 2
    with i assms(1,2,4) show ?thesis by (simp add: iterate_nth nth_append)
  next
    case 3
    then obtain k where k: "i = Suc (pos + k)" by (metis less_imp_Suc_add)
    with i assms(1,2) assms(5) [of i] 3 show ?thesis
      by (simp add: iterate_nth nth_append)
  qed
qed

lemma iterate_remove:
  assumes "size' v' = size' v - 1" and "pos < size' v"
    and "\<And>j. j < pos \<Longrightarrow> slot_at (cells (data' v')) j = slot_at (cells (data' v)) j"
    and "\<And>j. pos \<le> j \<Longrightarrow> j < size' v - 1 \<Longrightarrow>
           slot_at (cells (data' v')) j = slot_at (cells (data' v)) (Suc j)"
  shows "iterate v' = take pos (iterate v) @ drop (Suc pos) (iterate v)"
proof (rule nth_equalityI)
  show "length (iterate v') = length (take pos (iterate v) @ drop (Suc pos) (iterate v))"
    using assms(1,2) by simp
next
  fix i assume "i < length (iterate v')"
  then have i: "i < size' v - 1" using assms(1) by simp
  show "iterate v' ! i = (take pos (iterate v) @ drop (Suc pos) (iterate v)) ! i"
  proof (cases "i < pos")
    case True
    with i assms(1,2,3) show ?thesis by (simp add: iterate_nth nth_append)
  next
    case False
    then obtain k where k: "i = pos + k" by (metis le_Suc_ex not_less)
    with i assms(1,2) assms(4) [of i] False show ?thesis
      by (simp add: iterate_nth nth_append)
  qed
qed

lemma slot_at_destroy_at:
  "slot_at (destroy_at m i) j = (if j = i \<and> i < length m then None else slot_at m j)"
  by (simp add: destroy_at_def slot_at_put_slot)

lemma Erase_result:
  assumes pos: "pos < size' v" and len: "size' v \<le> length (cells (data' v))"
  shows "\<exists>v'. Erase E v pos = Returns pos v' []
           \<and> size' v' = size' v - 1 \<and> Capacity v' = Capacity v
           \<and> iterate v' = take pos (iterate v) @ drop (Suc pos) (iterate v)
           \<and> slot_at (cells (data' v')) (size' v - 1) =
               (if Suc pos < size' v
                then map_option (moved_from E) (slot_at (cells (data' v)) (size' v - 1))
                else slot_at (cells (data' v)) (size' v - 1))
           \<and> slot_at (cells (data' v')) (size' v) = None"
proof -
  let ?m = "cells (data' v)"
  let ?n = "size' v - Suc pos"
  let ?m1 = "move_n E ?m (Suc pos) ?n pos"
  let ?m2 = "destroy_at ?m1 (size' v)"
  let ?v' = "(set_cells v ?m2)\<lparr>size' := size' v - 1\<rparr>"
  have run: "Erase E v pos = Returns pos ?v' []"
    using pos by (simp add: Erase_def std_move_def)
  have rng: "pos + ?n < length ?m" using pos len by simp
  have m1: "slot_at ?m1 j =
       (if pos \<le> j \<and> j < pos + ?n then slot_at ?m (Suc j)
        else if j = pos + ?n \<and> 0 < ?n then map_option (moved_from E) (slot_at ?m j)
        else slot_at ?m j)" for j
    by (rule move_n_shift_left [OF rng])
  have m2: "slot_at ?m2 j = (if j = size' v \<and> size' v < length ?m then None else slot_at ?m1 j)" for j
    by (simp add: slot_at_destroy_at)
  have c': "cells (data' ?v') = ?m2" by (simp add: set_cells_def)
  have "iterate ?v' = take pos (iterate v) @ drop (Suc pos) (iterate v)"
  proof (rule iterate_remove)
    show "size' ?v' = size' v - 1" by simp
    show "pos < size' v" by (rule pos)
  next
    fix j assume "j < pos"
    with pos show "slot_at (cells (data' ?v')) j = slot_at ?m j"
      unfolding c' m2 m1 by auto
  next
    fix j assume "pos \<le> j" "j < size' v - 1"
    with pos show "slot_at (cells (data' ?v')) j = slot_at ?m (Suc j)"
      unfolding c' m2 m1 by auto
  qed
  moreover have "slot_at (cells (data' ?v')) (size' v - 1) =
               (if Suc pos < size' v
                then map_option (moved_from E) (slot_at ?m (size' v - 1))
                else slot_at ?m (size' v - 1))"
    unfolding c' m2 m1 using pos by auto
  moreover have "slot_at (cells (data' ?v')) (size' v) = None"
    unfolding c' m2 m1 using pos by (auto simp: slot_at_def)
  moreover have "Capacity ?v' = Capacity v" by (simp add: Capacity_def set_cells_def)
  ultimately show ?thesis using run by simp
qed

section \<open>What Emplace does in place and on the moving branch\<close>

text \<open>
  With spare capacity, and on the moving branch of the growth path, \<^verbatim>\<open>Emplace\<close> returns
  the position it was given and the vector then holds the old prefix, the new element
  and the old suffix.
\<close>

lemma uninitialized_move_n_src:
  "slot_at (fst (uninitialized_move_n E src f n dst d)) j =
     (if f \<le> j \<and> j < f + n then map_option (moved_from E) (slot_at src j) else slot_at src j)"
proof (induction n arbitrary: src f dst d)
  case 0
  show ?case by auto
next
  case (Suc n)
  show ?case
    unfolding uninitialized_move_n.simps Suc.IH slot_at_put_slot
    by (auto simp: slot_at_def)
qed

lemma Emplace_in_place:
  assumes wf: "well_formed v" and spare: "size' v \<noteq> Capacity v" and pos: "pos < size' v"
  shows "\<exists>v'. Emplace E v pos (Some x) = Returns pos v' []
           \<and> size' v' = size' v + 1 \<and> Capacity v' = Capacity v
           \<and> iterate v' = take pos (iterate v) @ [Some x] @ drop pos (iterate v)"
proof -
  let ?m = "cells (data' v)"
  let ?sz = "size' v"
  from wf spare have len: "length ?m = capacity' (data' v)" and lt: "?sz < length ?m"
    by (simp_all add: well_formed_def Capacity_def)
  from pos obtain l where l: "?sz = Suc l" by (cases ?sz) auto
  let ?m1 = "move_slot E ?m l ?sz"
  let ?m2 = "move_backward_n E ?m1 l (l - pos) ?sz"
  let ?m3 = "put_slot ?m2 pos (Some x)"
  let ?v' = "(set_cells v ?m3)\<lparr>size' := ?sz + 1\<rparr>"
  have run: "Emplace E v pos (Some x) = Returns pos ?v' []"
    using spare pos lt len l
    by (simp add: Emplace.simps [of E v pos "Some x"] RawMemory_index_def move_backward_def)
  have m1: "slot_at ?m1 k =
       (if k = l then map_option (moved_from E) (slot_at ?m l)
        else if k = ?sz then slot_at ?m l else slot_at ?m k)" for k
    using lt l by (simp add: slot_at_move_slot)
  have m2: "slot_at ?m2 j =
       (if l - (l - pos) < j \<and> j \<le> l then slot_at ?m1 (j - 1)
        else if j = l - (l - pos) \<and> 0 < l - pos then map_option (moved_from E) (slot_at ?m1 j)
        else slot_at ?m1 j)" for j
    unfolding l using lt l by (intro move_backward_n_shift_right) simp_all
  have lp: "l - (l - pos) = pos" using pos l by simp
  have m3: "slot_at ?m3 j = (if j = pos then Some x else slot_at ?m2 j)" for j
    using pos lt by (simp add: slot_at_put_slot)
  have c': "cells (data' ?v') = ?m3" by (simp add: set_cells_def)
  have "iterate ?v' = take pos (iterate v) @ [Some x] @ drop pos (iterate v)"
  proof (rule iterate_insert)
    show "size' ?v' = ?sz + 1" by simp
    show "pos \<le> ?sz" using pos by simp
    show "slot_at (cells (data' ?v')) pos = Some x" unfolding c' m3 by simp
  next
    fix j assume "j < pos"
    then show "slot_at (cells (data' ?v')) j = slot_at ?m j"
      unfolding c' m3 m2 lp m1 using pos l by auto
  next
    fix j assume "pos < j" "j \<le> ?sz"
    then show "slot_at (cells (data' ?v')) j = slot_at ?m (j - 1)"
      unfolding c' m3 m2 lp m1 using pos l by auto
  qed
  moreover have "Capacity ?v' = Capacity v" by (simp add: Capacity_def set_cells_def)
  ultimately show ?thesis using run by simp
qed

lemma Emplace_grow_move:
  assumes wf: "well_formed v" and full: "size' v = Capacity v" and pos: "pos \<le> size' v"
    and alloc: "operator_new E (request E (if size' v > 0 then size' v * 2 else 1)) \<noteq> None"
    and fits: "no_wrap E (if size' v > 0 then size' v * 2 else 1)"
    and strategy: "is_nothrow_move_constructible E \<or> \<not> is_copy_constructible E"
  shows "\<exists>v' rel. Emplace E v pos (Some x) = Returns pos v' rel
           \<and> size' v' = size' v + 1
           \<and> iterate v' = take pos (iterate v) @ [Some x] @ drop pos (iterate v)"
proof -
  let ?m = "cells (data' v)"
  let ?sz = "size' v"
  let ?N = "if ?sz > 0 then ?sz * 2 else 1"
  from RawMemory_new_succeeds [OF alloc] obtain nd where nd: "RawMemory_new E ?N = Inr nd" by blast
  from RawMemory_new_Inr [OF nd] fits
  have ndf: "capacity' nd = ?N \<and> cells nd = replicate ?N None" by simp
  have lt: "?sz < ?N" by simp
  let ?c = "construct_at (cells nd) pos x"
  have lenc: "length ?c = ?N" using ndf by simp
  obtain old1 new1 where mv1: "uninitialized_move_n E ?m 0 pos ?c 0 = (old1, new1)"
    by (cases "uninitialized_move_n E ?m 0 pos ?c 0")
  obtain old2 new2 where mv2:
    "uninitialized_move_n E old1 pos (?sz - pos) new1 (pos + 1) = (old2, new2)"
    by (cases "uninitialized_move_n E old1 pos (?sz - pos) new1 (pos + 1)")
  let ?v' = "v\<lparr>data' := nd\<lparr>cells := new2\<rparr>, size' := ?sz + 1\<rparr>"
  have run: "Emplace E v pos (Some x) = Returns pos ?v' (DestroyN old2 0 ?sz)"
    using strategy pos nd mv1 mv2
    by (simp add: Emplace.simps [of E v pos "Some x"] RawMemory_Swap_def full [symmetric])
  have c: "slot_at ?c j = (if j = pos then Some x else None)" for j
    using ndf pos lt by (simp add: slot_at_construct_at)
  have len1: "length new1 = ?N"
    using uninitialized_move_n_length [of E ?m 0 pos ?c 0] mv1 lenc by simp
  have new1: "slot_at new1 j = (if j < pos then slot_at ?m j else slot_at ?c j)" for j
    using uninitialized_move_n_dst [of E ?m 0 pos ?c 0 j] mv1 lenc pos lt by auto
  have old1: "slot_at old1 k = (if k < pos then map_option (moved_from E) (slot_at ?m k) else slot_at ?m k)" for k
    using uninitialized_move_n_src [of E ?m 0 pos ?c 0 k] mv1 by simp
  have new2: "slot_at new2 j =
      (if pos + 1 \<le> j \<and> j < pos + 1 + (?sz - pos) \<and> j < length new1
       then slot_at old1 (pos + (j - (pos + 1))) else slot_at new1 j)" for j
    using uninitialized_move_n_dst [of E old1 pos "?sz - pos" new1 "pos + 1" j] mv2 by simp
  have "iterate ?v' = take pos (iterate v) @ [Some x] @ drop pos (iterate v)"
  proof (rule iterate_insert)
    show "size' ?v' = ?sz + 1" by simp
    show "pos \<le> ?sz" by (rule pos)
    show "slot_at (cells (data' ?v')) pos = Some x" by (simp add: new2 new1 c)
  next
    fix j assume "j < pos"
    then show "slot_at (cells (data' ?v')) j = slot_at ?m j" by (simp add: new2 new1)
  next
    fix j assume j: "pos < j" "j \<le> ?sz"
    then have "pos + (j - (pos + 1)) = j - 1" by simp
    with j lt show "slot_at (cells (data' ?v')) j = slot_at ?m (j - 1)"
      by (auto simp: new2 len1 old1)
  qed
  then show ?thesis using run by simp
qed

lemma Emplace_grow_returns:
  assumes full: "size' v = Capacity v" and pos: "pos \<le> size' v"
    and alloc: "operator_new E (request E (if size' v > 0 then size' v * 2 else 1)) \<noteq> None"
    and quiet: "is_nothrow_move_constructible E \<or> \<not> is_copy_constructible E
       \<or> (\<forall>k < size' v. \<forall>y. slot_at (cells (data' v)) k = Some y \<longrightarrow> \<not> copy_throws E y)"
  shows "\<exists>v' rel. Emplace E v pos (Some x) = Returns pos v' rel"
proof -
  let ?N = "if size' v > 0 then size' v * 2 else 1"
  from RawMemory_new_succeeds [OF alloc] obtain nd where nd: "RawMemory_new E ?N = Inr nd" by blast
  show ?thesis
  proof (cases "is_nothrow_move_constructible E \<or> \<not> is_copy_constructible E")
    case True
    with pos nd show ?thesis
      by (auto simp: Emplace.simps [of E v pos "Some x"] RawMemory_Swap_def full [symmetric]
          split: prod.splits)
  next
    case False
    with quiet have q: "\<forall>k < size' v. \<forall>y. slot_at (cells (data' v)) k = Some y \<longrightarrow> \<not> copy_throws E y"
      by blast
    have "\<forall>k<pos. \<forall>y. slot_at (cells (data' v)) (0 + k) = Some y \<longrightarrow> \<not> copy_throws E y"
      using q pos by (metis add_0 less_le_trans)
    from uninitialized_copy_n_succeeds [OF this] obtain new1 where c1:
      "uninitialized_copy_n E (cells (data' v)) 0 pos (construct_at (cells nd) pos x) 0 = Inr new1"
      by blast
    have "\<forall>k < size' v - pos. \<forall>y. slot_at (cells (data' v)) (pos + k) = Some y \<longrightarrow> \<not> copy_throws E y"
      using q pos by (metis add.commute less_diff_conv)
    from uninitialized_copy_n_succeeds [OF this] obtain new2 where c2:
      "uninitialized_copy_n E (cells (data' v)) pos (size' v - pos) new1 0 = Inr new2"
      by blast
    from False pos nd c1 c2 show ?thesis
      by (simp add: Emplace.simps [of E v pos "Some x"] RawMemory_Swap_def full [symmetric])
  qed
qed

section \<open>Erase\<close>

text \<open>
  C1 says that \<^verbatim>\<open>Erase(pos)\<close> destroys exactly one element, the vacated last slot at the
  old index \<open>size - 1\<close>, and touches no slot at or past the logical end. The code calls
  \<^verbatim>\<open>std::destroy_at(end())\<close> before \<^verbatim>\<open>--size_\<close>, so the slot it destroys is the one at the
  old index \<open>size\<close>. Erasing index 1 of \<open>[1, 2, 3]\<close> (capacity 4) leaves the moved-from
  object of slot 2 constructed behind the new end. Erasing index 0 of the result then
  destroys that slot 2, which is at the old end, and leaves the vacated slot 1
  constructed in its turn.
\<close>

theorem C1_Erase_destroys_slot_at_end:
  "Erase env_move (vector_of 7 [Some 1, Some 2, Some 3, None] 3) 1
     = Returns 1 (vector_of 7 [Some 1, Some 3, Some 3, None] 2) []
   \<and> Erase env_move (vector_of 7 [Some 1, Some 3, Some 3, None] 2) 0
     = Returns 0 (vector_of 7 [Some 3, Some 3, None, None] 1) []"
  by code_simp

section \<open>Emplace in the middle\<close>

text \<open>
  C2 says that \<^verbatim>\<open>Emplace\<close> yields the old prefix, the new element and the old suffix,
  also when the vector has to grow and under both transfer strategies. On the copying
  branch of the growth path the suffix is copied to the start of the new block (line
  196) instead of behind the new element: emplacing 99 at index 1 of the full vector
  \<open>[1, 2, 3]\<close> gives a vector of size 4 whose first two slots hold 2 and 3 and whose
  last two slots are raw. The moving branch gives \<open>[1, 99, 2, 3]\<close>.
\<close>

theorem C2_Emplace_copy_growth:
  "Emplace env_copy (vector_of 7 [Some 1, Some 2, Some 3] 3) 1 (Some 99)
     = Returns 1 (vector_of 6 [Some 2, Some 3, None, None, None, None] 4) [None, None, None]
   \<and> iterate (vector_of 6 [Some 2, Some 3, None, None, None, None :: nat option] 4)
     = [Some 2, Some 3, None, None]
   \<and> Emplace env_move (vector_of 7 [Some 1, Some 2, Some 3] 3) 1 (Some 99)
     = Returns 1 (vector_of 6 [Some 1, Some 99, Some 2, Some 3, None, None] 4) [None, None, None]"
  by code_simp

section \<open>Moving a raw-memory handle\<close>

text \<open>
  C3, as stated: after any move, construction or assignment, the source handle is empty
  (null pointer, capacity 0), whatever the target held. Move assignment into a handle
  that owns a block refutes it: the source receives that block.
\<close>

theorem C3_move_assign_counterexample:
  "\<not> (buffer' (snd (RawMemory_move_assign
          (\<lparr>buffer' = Addr 1, capacity' = 2, cells = [None, None :: nat option]\<rparr>,
           \<lparr>buffer' = Addr 2, capacity' = 3, cells = [None, None, None]\<rparr>))) = nullptr
      \<and> capacity' (snd (RawMemory_move_assign
          (\<lparr>buffer' = Addr 1, capacity' = 2, cells = [None, None :: nat option]\<rparr>,
           \<lparr>buffer' = Addr 2, capacity' = 3, cells = [None, None, None]\<rparr>))) = 0)"
  by (simp add: RawMemory_move_assign_def RawMemory_Swap_def)

text \<open>
  C3, amended: move construction leaves the source empty (null pointer, capacity 0).
  Move assignment exchanges the two handles when their pointers differ, so the source
  then holds the pointer, the capacity and the block that the target had before; when
  the pointers are equal both handles stay as they were. In particular the source of a
  move assignment is empty afterwards when the target was empty before.
\<close>

theorem C3_move_source:
  "buffer' (snd (RawMemory_move_ctor other)) = nullptr
   \<and> capacity' (snd (RawMemory_move_ctor other)) = 0
   \<and> (buffer' rhs \<noteq> buffer' this \<longrightarrow>
        snd (RawMemory_move_assign (this, rhs)) = this
        \<and> fst (RawMemory_move_assign (this, rhs)) = rhs)
   \<and> (buffer' rhs = buffer' this \<longrightarrow> RawMemory_move_assign (this, rhs) = (this, rhs))
   \<and> (buffer' this = nullptr \<and> capacity' this = 0
        \<and> (buffer' rhs = nullptr \<longrightarrow> capacity' rhs = 0) \<longrightarrow>
        buffer' (snd (RawMemory_move_assign (this, rhs))) = nullptr
        \<and> capacity' (snd (RawMemory_move_assign (this, rhs))) = 0)"
  by (auto simp: RawMemory_move_ctor_def RawMemory_move_assign_def RawMemory_Swap_def
      RawMemory_default_def)

theorem C3_move_source_witness:
  "buffer' \<lparr>buffer' = Addr 2, capacity' = 3, cells = [None, None, None :: nat option]\<rparr>
     \<noteq> buffer' \<lparr>buffer' = Addr 1, capacity' = 2, cells = [None, None :: nat option]\<rparr>
   \<and> snd (RawMemory_move_assign
        (\<lparr>buffer' = Addr 1, capacity' = 2, cells = [None, None :: nat option]\<rparr>,
         \<lparr>buffer' = Addr 2, capacity' = 3, cells = [None, None, None]\<rparr>))
     = \<lparr>buffer' = Addr 1, capacity' = 2, cells = [None, None]\<rparr>
   \<and> snd (RawMemory_move_assign
        (RawMemory_default, \<lparr>buffer' = Addr 2, capacity' = 3, cells = [None, None, None :: nat option]\<rparr>))
     = RawMemory_default
   \<and> snd (RawMemory_move_ctor \<lparr>buffer' = Addr 2, capacity' = 3, cells = [None, None, None :: nat option]\<rparr>)
     = RawMemory_default
   \<and> RawMemory_move_assign (RawMemory_default :: nat RawMemory, RawMemory_default)
     = (RawMemory_default, RawMemory_default)"
proof -
  have ne: "buffer' \<lparr>buffer' = Addr 2, capacity' = 3, cells = [None, None, None :: nat option]\<rparr>
     \<noteq> buffer' \<lparr>buffer' = Addr 1, capacity' = 2, cells = [None, None :: nat option]\<rparr>"
    by simp
  have ne0: "buffer' \<lparr>buffer' = Addr 2, capacity' = 3, cells = [None, None, None :: nat option]\<rparr>
     \<noteq> buffer' (RawMemory_default :: nat RawMemory)"
    by (simp add: RawMemory_default_def)
  have ctor: "snd (RawMemory_move_ctor \<lparr>buffer' = Addr 2, capacity' = 3, cells = [None, None, None :: nat option]\<rparr>)
     = RawMemory_default"
    by (simp add: RawMemory_move_ctor_def RawMemory_Swap_def RawMemory_default_def)
  from ne ne0 ctor
    C3_move_source [of "\<lparr>buffer' = Addr 2, capacity' = 3, cells = [None, None, None :: nat option]\<rparr>"
      "\<lparr>buffer' = Addr 2, capacity' = 3, cells = [None, None, None :: nat option]\<rparr>"
      "\<lparr>buffer' = Addr 1, capacity' = 2, cells = [None, None :: nat option]\<rparr>"]
    C3_move_source [of "\<lparr>buffer' = Addr 2, capacity' = 3, cells = [None, None, None :: nat option]\<rparr>"
      "\<lparr>buffer' = Addr 2, capacity' = 3, cells = [None, None, None :: nat option]\<rparr>"
      "RawMemory_default :: nat RawMemory"]
    C3_move_source [of "RawMemory_default :: nat RawMemory" "RawMemory_default :: nat RawMemory"
      "RawMemory_default :: nat RawMemory"]
  show ?thesis by simp
qed

section \<open>Failure during reallocation\<close>

text \<open>
  C4 says that a failing operation leaves the vector unchanged and that the elements
  already constructed in the abandoned new block are destroyed. \<^verbatim>\<open>Reserve\<close> does both.
  The growth path of \<^verbatim>\<open>Emplace\<close> constructs the new element in the new block first
  (line 189); when a copy of an old element then throws, the vector is unchanged, but
  the block is released with the new element still constructed in it. Pushing 2 onto
  the full vector \<open>[1]\<close>, with a copy constructor that throws on 1, releases the block
  \<open>[raw, 2]\<close>.
\<close>

theorem C4_growth_abandons_new_element:
  "PushBack_copy env_copy_throwing (vector_of 7 [Some 1] 1) 2
     = Throws ElementException (vector_of 7 [Some 1] 1) [None, Some 2]
   \<and> Reserve env_copy_throwing (vector_of 7 [Some 2, Some 1, Some 3] 3) 5
     = Throws ElementException (vector_of 7 [Some 2, Some 1, Some 3] 3)
         [None, None, None, None, None]"
  by code_simp

section \<open>The growth policy\<close>

text \<open>
  C5: on a vector whose size equals its capacity, every insertion that returns
  (\<^verbatim>\<open>Emplace\<close>, \<^verbatim>\<open>EmplaceBack\<close>, both \<^verbatim>\<open>Insert\<close> and both \<^verbatim>\<open>PushBack\<close> overloads) leaves the
  capacity at exactly \<open>max 1 (2 * old capacity)\<close>: 1 from capacity 0, twice the old
  capacity otherwise. And each of the six insertions does return, with that capacity,
  when the allocator provides the block of that capacity, the old elements are moved
  by a \<^verbatim>\<open>noexcept\<close> move constructor or copied by copy constructors that do not throw,
  the copy of the new value in the overloads for \<^verbatim>\<open>const T&\<close> does not throw and, for
  \<^verbatim>\<open>Emplace\<close> and \<^verbatim>\<open>Insert\<close>, the position is valid.
\<close>

theorem C5_growth_policy:
  "size' v = Capacity v \<Longrightarrow>
     (Emplace E v pos arg = Returns r v' rel \<longrightarrow> Capacity v' = max 1 (2 * Capacity v))
   \<and> (EmplaceBack E v arg = Returns r v' rel \<longrightarrow> Capacity v' = max 1 (2 * Capacity v))
   \<and> (Insert_copy E v pos x = Returns r v' rel \<longrightarrow> Capacity v' = max 1 (2 * Capacity v))
   \<and> (Insert_move E v pos x = Returns r v' rel \<longrightarrow> Capacity v' = max 1 (2 * Capacity v))
   \<and> (PushBack_copy E v x = Returns u v' rel \<longrightarrow> Capacity v' = max 1 (2 * Capacity v))
   \<and> (PushBack_move E v x = Returns u v' rel \<longrightarrow> Capacity v' = max 1 (2 * Capacity v))
   \<and> (operator_new E (request E (max 1 (2 * Capacity v))) \<noteq> None
        \<and> (is_nothrow_move_constructible E
             \<or> is_copy_constructible E
                \<and> (\<forall>k < size' v. \<forall>y. slot_at (cells (data' v)) k = Some y \<longrightarrow> \<not> copy_throws E y))
        \<longrightarrow>
          (pos \<le> size' v \<longrightarrow>
             (\<exists>w l. Emplace E v pos (Some x) = Returns pos w l
                    \<and> Capacity w = max 1 (2 * Capacity v)))
        \<and> (pos \<le> size' v \<longrightarrow>
             (\<exists>w l. Insert_move E v pos x = Returns pos w l
                    \<and> Capacity w = max 1 (2 * Capacity v)))
        \<and> (pos \<le> size' v \<and> \<not> copy_throws E x \<longrightarrow>
             (\<exists>w l. Insert_copy E v pos x = Returns pos w l
                    \<and> Capacity w = max 1 (2 * Capacity v)))
        \<and> (\<exists>q w l. EmplaceBack E v (Some x) = Returns q w l
                    \<and> Capacity w = max 1 (2 * Capacity v))
        \<and> (\<exists>w l. PushBack_move E v x = Returns () w l
                    \<and> Capacity w = max 1 (2 * Capacity v))
        \<and> (\<not> copy_throws E x \<longrightarrow>
             (\<exists>w l. PushBack_copy E v x = Returns () w l
                    \<and> Capacity w = max 1 (2 * Capacity v))))"
proof -
  assume full: "size' v = Capacity v"
  have em: "Capacity w = max 1 (2 * Capacity v)" if "Emplace E v p a = Returns q w l" for p a q w l
    using Emplace_grow_result [OF full that] full by (auto simp: Capacity_def)
  have eb: "Capacity w = max 1 (2 * Capacity v)" if "EmplaceBack E v a = Returns q w l" for a q w l
    using EmplaceBack_grow_result [OF full that] full by (auto simp: Capacity_def)
  have ins: "Capacity v' = max 1 (2 * Capacity v)"
    if "Insert_copy E v pos x = Returns r v' rel \<or> Insert_move E v pos x = Returns r v' rel"
    using that em by (auto simp: Insert_copy_def Insert_move_def)
  have push: "Capacity v' = max 1 (2 * Capacity v)"
    if "PushBack_copy E v x = Returns u v' rel \<or> PushBack_move E v x = Returns u v' rel"
    using that eb by (auto simp: PushBack_copy_def PushBack_move_def split: outcome.splits)
  have mx: "max 1 (2 * Capacity v) = (if size' v > 0 then size' v * 2 else 1)"
    using full by auto
  have returns:
    "(pos \<le> size' v \<longrightarrow>
             (\<exists>w l. Emplace E v pos (Some x) = Returns pos w l
                    \<and> Capacity w = max 1 (2 * Capacity v)))
        \<and> (pos \<le> size' v \<longrightarrow>
             (\<exists>w l. Insert_move E v pos x = Returns pos w l
                    \<and> Capacity w = max 1 (2 * Capacity v)))
        \<and> (pos \<le> size' v \<and> \<not> copy_throws E x \<longrightarrow>
             (\<exists>w l. Insert_copy E v pos x = Returns pos w l
                    \<and> Capacity w = max 1 (2 * Capacity v)))
        \<and> (\<exists>q w l. EmplaceBack E v (Some x) = Returns q w l
                    \<and> Capacity w = max 1 (2 * Capacity v))
        \<and> (\<exists>w l. PushBack_move E v x = Returns () w l
                    \<and> Capacity w = max 1 (2 * Capacity v))
        \<and> (\<not> copy_throws E x \<longrightarrow>
             (\<exists>w l. PushBack_copy E v x = Returns () w l
                    \<and> Capacity w = max 1 (2 * Capacity v)))"
    if alloc: "operator_new E (request E (max 1 (2 * Capacity v))) \<noteq> None"
      and safe: "is_nothrow_move_constructible E
             \<or> is_copy_constructible E
                \<and> (\<forall>k < size' v. \<forall>y. slot_at (cells (data' v)) k = Some y \<longrightarrow> \<not> copy_throws E y)"
  proof -
    from safe have quiet: "is_nothrow_move_constructible E \<or> \<not> is_copy_constructible E
         \<or> (\<forall>k < size' v. \<forall>y. slot_at (cells (data' v)) k = Some y \<longrightarrow> \<not> copy_throws E y)"
      by blast
    from alloc have alloc': "operator_new E (request E (if size' v > 0 then size' v * 2 else 1)) \<noteq> None"
      unfolding mx .
    have anypos: "\<exists>w l. Emplace E v p (Some x) = Returns p w l \<and> Capacity w = max 1 (2 * Capacity v)"
      if "p \<le> size' v" for p
    proof -
      from Emplace_grow_returns [OF full that alloc' quiet, of x]
      obtain w l where "Emplace E v p (Some x) = Returns p w l" by blast
      with em [OF this] show ?thesis by blast
    qed
    from anypos [of "size' v"] obtain w l where
      e: "Emplace E v (size' v) (Some x) = Returns (size' v) w l"
      and c: "Capacity w = max 1 (2 * Capacity v)" by auto
    from e have atend: "EmplaceBack E v (Some x) = Returns (size' w - 1) w l"
      by (simp add: EmplaceBack.simps [of E v "Some x"] full [symmetric])
    have "\<exists>q w l. EmplaceBack E v (Some x) = Returns q w l \<and> Capacity w = max 1 (2 * Capacity v)"
      using atend c by blast
    moreover have "\<exists>w l. PushBack_move E v x = Returns () w l \<and> Capacity w = max 1 (2 * Capacity v)"
      using atend c by (simp add: PushBack_move_def)
    moreover have "\<exists>w l. PushBack_copy E v x = Returns () w l \<and> Capacity w = max 1 (2 * Capacity v)"
      if "\<not> copy_throws E x"
      using atend c that by (simp add: PushBack_copy_def copy_of_def)
    moreover have "\<exists>w l. Insert_move E v pos x = Returns pos w l \<and> Capacity w = max 1 (2 * Capacity v)"
      if "pos \<le> size' v"
      using anypos [OF that] by (simp add: Insert_move_def)
    moreover have "\<exists>w l. Insert_copy E v pos x = Returns pos w l \<and> Capacity w = max 1 (2 * Capacity v)"
      if "pos \<le> size' v" and "\<not> copy_throws E x"
      using anypos [OF that(1)] that(2) by (simp add: Insert_copy_def copy_of_def)
    ultimately show ?thesis using anypos [of pos] by blast
  qed
  from em eb ins push returns show ?thesis by blast
qed

theorem C5_growth_policy_witness:
  "size' (vector_of 7 [Some 1, Some (2::nat)] 2) = Capacity (vector_of 7 [Some 1, Some (2::nat)] 2)
   \<and> PushBack_copy env_copy (vector_of 7 [Some 1, Some 2] 2) 3
       = Returns () (vector_of 4 [Some 1, Some 2, Some 3, None] 3) [None, None]
   \<and> Insert_copy env_copy (vector_of 7 [Some 1, Some 2] 2) 2 3
       = Returns 2 (vector_of 4 [Some 1, Some 2, Some 3, None] 3) [None, None]
   \<and> Insert_move env_move (vector_of 7 [Some 1, Some 2] 2) 0 3
       = Returns 0 (vector_of 4 [Some 3, Some 1, Some 2, None] 3) [None, None]
   \<and> Capacity (vector_of 4 [Some 1, Some 2, Some (3::nat), None] 3) = 4
   \<and> Capacity (vector_of 4 [Some 3, Some 1, Some (2::nat), None] 3) = 4
   \<and> size' (Vector_default :: nat Vector) = Capacity (Vector_default :: nat Vector)
   \<and> Emplace env_move Vector_default 0 (Some 5) = Returns 0 (vector_of 1 [Some 5] 1) []
   \<and> Capacity (vector_of 1 [Some (5::nat)] 1) = 1"
proof -
  have full: "size' (vector_of 7 [Some 1, Some (2::nat)] 2)
      = Capacity (vector_of 7 [Some 1, Some (2::nat)] 2)"
    by (simp add: vector_of_def Capacity_def)
  have cap: "Capacity (vector_of 7 [Some 1, Some (2::nat)] 2) = 2"
    by (simp add: vector_of_def Capacity_def)
  have run: "PushBack_copy env_copy (vector_of 7 [Some 1, Some 2] 2) 3
       = Returns () (vector_of 4 [Some 1, Some 2, Some 3, None] 3) [None, None]"
    by code_simp
  have run_ic: "Insert_copy env_copy (vector_of 7 [Some 1, Some 2] 2) 2 3
       = Returns 2 (vector_of 4 [Some 1, Some 2, Some 3, None] 3) [None, None]"
    by code_simp
  have run_im: "Insert_move env_move (vector_of 7 [Some 1, Some 2] 2) 0 3
       = Returns 0 (vector_of 4 [Some 3, Some 1, Some 2, None] 3) [None, None]"
    by code_simp
  have full0: "size' (Vector_default :: nat Vector) = Capacity (Vector_default :: nat Vector)"
    by (simp add: Vector_default_def RawMemory_default_def Capacity_def)
  have cap0: "Capacity (Vector_default :: nat Vector) = 0"
    by (simp add: Vector_default_def RawMemory_default_def Capacity_def)
  have run0: "Emplace env_move Vector_default 0 (Some 5) = Returns 0 (vector_of 1 [Some 5] 1) []"
    by code_simp
  from C5_growth_policy [OF full, of env_copy _ _ _ "vector_of 4 [Some 1, Some 2, Some 3, None] 3"
      "[None, None]" 3 "()"] run cap
    C5_growth_policy [OF full, of env_copy 2 _ 2 "vector_of 4 [Some 1, Some 2, Some 3, None] 3"
      "[None, None]" 3] run_ic
    C5_growth_policy [OF full, of env_move 0 _ 0 "vector_of 4 [Some 3, Some 1, Some 2, None] 3"
      "[None, None]" 3] run_im
    C5_growth_policy [OF full0, of env_move 0 "Some 5" 0 "vector_of 1 [Some 5] 1" "[]"] run0 cap0
    full full0
  show ?thesis by simp
qed

section \<open>Reserve\<close>




section \<open>Size and capacity\<close>

text \<open>
  C7: in every store reachable by constructing vectors (default, sized, copy, move) and
  calling the public operations (assignments, Reserve, Resize, PushBack, EmplaceBack,
  Emplace, Insert, Erase, PopBack, Swap), every vector has \<open>size \<le> capacity\<close>, also
  after a call that threw. (\<^verbatim>\<open>CopyElementsFromVector\<close>, the helper of copy assignment, is
  not one of these operations.)
\<close>

theorem C7_size_le_capacity: "reachable E s \<Longrightarrow> size' (s a) \<le> Capacity (s a)"
  using reachable_inv [of E s] by (simp add: vec_inv_def Capacity_def)

theorem C7_size_le_capacity_witness:
  "reachable env_copy
     ((\<lambda>a. Vector_default)(0 := state_of (PushBack_copy env_copy Vector_default 5)))
   \<and> state_of (PushBack_copy env_copy Vector_default 5) = vector_of 1 [Some 5] 1
   \<and> size' (vector_of 1 [Some (5::nat)] 1) \<le> Capacity (vector_of 1 [Some (5::nat)] 1)"
proof -
  have r: "reachable env_copy
     ((\<lambda>a. Vector_default)(0 := state_of (PushBack_copy env_copy Vector_default 5)))"
    using reachable.push_back_copy [OF reachable.init, of env_copy 0 5] by simp
  have run: "state_of (PushBack_copy env_copy Vector_default 5) = vector_of 1 [Some 5] 1"
    by code_simp
  from C7_size_le_capacity [OF r, of 0] r run show ?thesis by simp
qed

section \<open>Emplace at the end\<close>

text \<open>
  C8: for every vector state and every argument, \<^verbatim>\<open>Emplace(end(), args...)\<close> and
  \<^verbatim>\<open>EmplaceBack(args...)\<close> have the same outcome: the same resulting vector (size,
  capacity, elements), the same position of the new element, or the same failure.
\<close>

theorem C8_Emplace_at_end: "Emplace E v (size' v) arg = EmplaceBack E v arg"
proof (cases "size' v = Capacity v")
  case True
  show ?thesis
  proof (cases "Emplace E v (size' v) arg")
    case (Returns r v' rel)
    from Emplace_grow_result [OF True Returns] have "size' v' - 1 = r" by simp
    with Returns show ?thesis by (simp add: EmplaceBack.simps [of E v arg] True [symmetric])
  next
    case (Throws e v' rel)
    then show ?thesis by (simp add: EmplaceBack.simps [of E v arg] True [symmetric])
  qed
next
  case False
  then show ?thesis by (simp add: Emplace.simps [of E v "size' v" arg])
qed

theorem C8_Emplace_at_end_witness:
  "Emplace env_move (vector_of 7 [Some 1, None] 1) (size' (vector_of 7 [Some (1::nat), None] 1)) (Some 9)
     = EmplaceBack env_move (vector_of 7 [Some 1, None] 1) (Some 9)
   \<and> EmplaceBack env_move (vector_of 7 [Some 1, None] 1) (Some 9)
     = Returns 1 (vector_of 7 [Some 1, Some 9] 2) []
   \<and> Emplace env_copy (vector_of 7 [Some 1] 1) (size' (vector_of 7 [Some (1::nat)] 1)) (Some 9)
     = EmplaceBack env_copy (vector_of 7 [Some 1] 1) (Some 9)
   \<and> EmplaceBack env_copy (vector_of 7 [Some 1] 1) (Some 9)
     = Returns 1 (vector_of 2 [Some 1, Some 9] 2) [None]"
proof -
  have spare: "EmplaceBack env_move (vector_of 7 [Some 1, None] 1) (Some 9)
     = Returns 1 (vector_of 7 [Some 1, Some 9] 2) []"
    by code_simp
  have grow: "EmplaceBack env_copy (vector_of 7 [Some 1] 1) (Some 9)
     = Returns 1 (vector_of 2 [Some 1, Some 9] 2) [None]"
    by code_simp
  from spare grow
    C8_Emplace_at_end [of env_move "vector_of 7 [Some 1, None] 1" "Some 9"]
    C8_Emplace_at_end [of env_copy "vector_of 7 [Some 1] 1" "Some 9"]
  show ?thesis by simp
qed

section \<open>Pushing and iterating\<close>

text \<open>
  C9: when the allocator never fails, no copy constructor of a pushed value throws and
  the list fits the address space (twice its length in elements is a byte count below
  \<open>2^64\<close>, so that no request of \<^verbatim>\<open>Allocate\<close> wraps around),
  pushing the values of any finite list into an empty vector, with either \<^verbatim>\<open>PushBack\<close>
  overload, returns, and iterating the result from \<^verbatim>\<open>begin()\<close> to \<^verbatim>\<open>end()\<close> yields
  exactly those values in the order they were pushed.
\<close>

theorem C9_push_order:
  "\<forall>n. operator_new E n \<noteq> None \<Longrightarrow> \<forall>y\<in>set xs. \<not> copy_throws E y \<Longrightarrow>
   no_wrap E (2 * length xs) \<Longrightarrow>
     (\<exists>v. push_all (PushBack_copy E) Vector_default xs = Returns () v [] \<and> iterate v = map Some xs)
   \<and> (\<exists>v. push_all (PushBack_move E) Vector_default xs = Returns () v [] \<and> iterate v = map Some xs)"
proof -
  assume alloc: "\<forall>n. operator_new E n \<noteq> None" and quiet: "\<forall>y\<in>set xs. \<not> copy_throws E y"
    and fits: "no_wrap E (2 * length xs)"
  have none: "\<forall>y. Some y \<in> set (iterate (Vector_default :: 'a Vector)) \<longrightarrow> \<not> copy_throws E y"
    by (simp add: iterate_default)
  have fits0: "no_wrap E (2 * (size' (Vector_default :: 'a Vector) + length xs))"
    using fits by (simp add: Vector_default_def)
  from push_all_appends [OF alloc well_formed_default none quiet fits0]
  show ?thesis by (simp add: iterate_default)
qed


theorem C9_push_order_witness:
  "(\<forall>n. operator_new env_copy n \<noteq> None)
   \<and> \<not> copy_throws env_copy 1 \<and> \<not> copy_throws env_copy 2 \<and> \<not> copy_throws env_copy 3
   \<and> no_wrap env_copy (2 * length [1, 2, 3 :: nat])
   \<and> push_all (PushBack_copy env_copy) Vector_default [1, 2, 3]
       = Returns () (vector_of 4 [Some 1, Some 2, Some 3, None] 3) []
   \<and> iterate (vector_of 4 [Some 1, Some 2, Some (3::nat), None] 3) = map Some [1, 2, 3]"
proof -
  have alloc: "\<forall>n. operator_new env_copy n \<noteq> None"
    by (simp add: env_copy_def)
  have quiet: "\<forall>y\<in>set [1, 2, 3]. \<not> copy_throws env_copy y"
    by (simp add: env_copy_def)
  have run: "push_all (PushBack_copy env_copy) Vector_default [1, 2, 3]
       = Returns () (vector_of 4 [Some 1, Some 2, Some 3, None] 3) []"
    by code_simp
  have fits: "no_wrap env_copy (2 * length [1, 2, 3 :: nat])"
    by (simp add: no_wrap_def env_copy_def)
  from C9_push_order [OF alloc quiet fits] run alloc quiet fits show ?thesis by simp
qed

section \<open>Self-assignment\<close>

text \<open>
  C10: assigning a vector to itself changes nothing, by copy assignment (\<^verbatim>\<open>v = v\<close>) and
  by move assignment (\<^verbatim>\<open>v = std::move(v)\<close>): both operators test \<^verbatim>\<open>this != &rhs\<close> first.
  The whole store, and so the size, the capacity and the elements of \<^verbatim>\<open>v\<close>, is as
  before.
\<close>

theorem C10_self_assignment:
  "Vector_copy_assign E s this this = Returns () s [] \<and> Vector_move_assign s this this = s"
  by (simp add: Vector_copy_assign_def Vector_move_assign_def)

theorem C10_self_assignment_witness:
  "Vector_copy_assign env_copy ((\<lambda>a. Vector_default)(0 := vector_of 7 [Some 1, Some 2] 2)) 0 0
     = Returns () ((\<lambda>a. Vector_default)(0 := vector_of 7 [Some 1, Some 2] 2)) []
   \<and> Vector_move_assign ((\<lambda>a. Vector_default)(0 := vector_of 7 [Some 1, Some (2::nat)] 2)) 0 0
     = (\<lambda>a. Vector_default)(0 := vector_of 7 [Some 1, Some 2] 2)"
  using C10_self_assignment [of env_copy "(\<lambda>a. Vector_default)(0 := vector_of 7 [Some 1, Some 2] 2)" 0]
  by simp

end
